theory Spec2Isabelle
  imports Main
begin

section \<open>Strings and values\<close>

text \<open>
  The bundle \<^verbatim>\<open>src/dist/apprun.js\<close> holds the event bus (module 0, class App), the
  tree reconciler (module 3) and the component state machine (module 5). JavaScript
  strings are modelled as \<^typ>\<open>string\<close>; the string helpers below are the ones the
  source calls (\<^verbatim>\<open>startsWith\<close>, \<^verbatim>\<open>toUpperCase\<close>, \<^verbatim>\<open>trim\<close>, \<^verbatim>\<open>split(",")\<close>),
  on ASCII.
\<close>

definition startsWith :: "string \<Rightarrow> string \<Rightarrow> bool" where
  "startsWith s p = (take (length p) s = p)"

definition upper_char :: "char \<Rightarrow> char" where
  "upper_char c =
     (case map_of (zip ''abcdefghijklmnopqrstuvwxyz'' ''ABCDEFGHIJKLMNOPQRSTUVWXYZ'') c of
        None \<Rightarrow> c
      | Some u \<Rightarrow> u)"

definition toUpperCase :: "string \<Rightarrow> string" where
  "toUpperCase s = map upper_char s"

definition is_space :: "char \<Rightarrow> bool" where
  "is_space c = ((of_char c :: nat) \<in> {9, 10, 11, 12, 13, 32, 160})"

definition trim :: "string \<Rightarrow> string" where
  "trim s = rev (dropWhile is_space (rev (dropWhile is_space s)))"

fun split_on :: "char \<Rightarrow> string \<Rightarrow> string \<Rightarrow> string list" where
  "split_on sep acc [] = [rev acc]"
| "split_on sep acc (c # cs) =
     (if c = sep then rev acc # split_on sep [] cs else split_on sep (c # acc) cs)"

definition split_commas :: "string \<Rightarrow> string list" where
  "split_commas s = split_on (CHR '','') [] s"

text \<open>
  A plain object literal \<^verbatim>\<open>{}\<close> used as a dictionary inherits the properties of
  \<^verbatim>\<open>Object.prototype\<close>: reading \<^verbatim>\<open>obj[name]\<close> for one of these names yields an
  inherited function (or, for \<^verbatim>\<open>__proto__\<close>, the prototype object), a truthy value
  that is not an array and not a host node. Both dictionaries of the source, the bus's
  \<^verbatim>\<open>_events\<close> and the reconciler's key registry, are created as \<^verbatim>\<open>{}\<close>.
\<close>

definition object_prototype_names :: "string list" where
  "object_prototype_names =
     [''constructor'', ''__defineGetter__'', ''__defineSetter__'', ''hasOwnProperty'',
      ''__lookupGetter__'', ''__lookupSetter__'', ''isPrototypeOf'', ''propertyIsEnumerable'',
      ''toString'', ''valueOf'', ''__proto__'', ''toLocaleString'']"

definition inherited :: "string \<Rightarrow> bool" where
  "inherited name = (name \<in> set object_prototype_names)"

text \<open>Property values of a description node: strings, numbers, booleans, functions
  (by identity) and style objects (by identity, with their entries).\<close>

datatype pval = PStr string | PNum int | PBool bool | PFun nat | PObj nat "(string \<times> string) list"

text \<open>\<^verbatim>\<open>a !== b\<close> is the negation of \<open>strict_eq\<close>: primitives compare by value,
  functions and objects by identity.\<close>

fun strict_eq :: "pval \<Rightarrow> pval \<Rightarrow> bool" where
  "strict_eq (PStr a) (PStr b) = (a = b)"
| "strict_eq (PNum a) (PNum b) = (a = b)"
| "strict_eq (PBool a) (PBool b) = (a = b)"
| "strict_eq (PFun a) (PFun b) = (a = b)"
| "strict_eq (PObj a _) (PObj b _) = (a = b)"
| "strict_eq _ _ = False"

fun truthy_p :: "pval \<Rightarrow> bool" where
  "truthy_p (PStr s) = (s \<noteq> [])"
| "truthy_p (PNum n) = (n \<noteq> 0)"
| "truthy_p (PBool b) = b"
| "truthy_p (PFun _) = True"
| "truthy_p (PObj _ _) = True"

function digits :: "nat \<Rightarrow> string" where
  "digits n = (if n < 10 then [''0123456789'' ! n] else digits (n div 10) @ [''0123456789'' ! (n mod 10)])"
  by pat_completeness auto
termination
  by (relation "measure id") auto

definition show_int :: "int \<Rightarrow> string" where
  "show_int i = (if i < 0 then CHR ''-'' # digits (nat (- i)) else digits (nat i))"

text \<open>The property name a value turns into when it indexes an object (\<^verbatim>\<open>s[i]\<close>). The
  source text of a function is not part of the model; a function used as a key is given
  a name built from its identity.\<close>

fun property_key :: "pval \<Rightarrow> string" where
  "property_key (PStr s) = s"
| "property_key (PNum n) = show_int n"
| "property_key (PBool b) = (if b then ''true'' else ''false'')"
| "property_key (PFun f) = ''function '' @ digits f"
| "property_key (PObj _ _) = ''[object Object]''"

text \<open>A description node is a string or \<^verbatim>\<open>{tag, props, children}\<close>; absent props are
  the empty list. A view returns nothing, one description node, or an array of them.\<close>

datatype vnode = VText string | VElem string "(string \<times> pval) list" "vnode list"

datatype vtree = VNothing | VSingle vnode | VList "vnode list"

text \<open>Application values: component states, event arguments, rejection reasons and
  thrown exceptions. \<open>VPromise p\<close> is the promise object with identity \<open>p\<close>.\<close>

datatype val =
    VUndefined | VNull | VBool bool | VNum int | VStr string
  | VArr "val list" | VObj "(string \<times> val) list" | VRef nat
  | VTree vtree | VPromise nat | VError string

fun truthy :: "val \<Rightarrow> bool" where
  "truthy VUndefined = False"
| "truthy VNull = False"
| "truthy (VBool b) = b"
| "truthy (VNum n) = (n \<noteq> 0)"
| "truthy (VStr s) = (s \<noteq> [])"
| "truthy _ = True"

text \<open>The outcome of a call: it returns a value in a new state, or it throws in the
  state reached so far (JavaScript does not roll back).\<close>

datatype ('a, 's) result = Done 'a 's | Raised val 's

definition bind :: "('a, 's) result \<Rightarrow> ('a \<Rightarrow> 's \<Rightarrow> ('b, 's) result) \<Rightarrow> ('b, 's) result" where
  "bind r f = (case r of Done x s \<Rightarrow> f x s | Raised e s \<Rightarrow> Raised e s)"

definition state_of :: "('a, 's) result \<Rightarrow> 's" where
  "state_of r = (case r of Done x s \<Rightarrow> s | Raised e s \<Rightarrow> s)"

definition returns :: "('a, 's) result \<Rightarrow> bool" where
  "returns r = (case r of Done x s \<Rightarrow> True | Raised e s \<Rightarrow> False)"

fun nth_opt :: "'a list \<Rightarrow> nat \<Rightarrow> 'a option" where
  "nth_opt [] i = None"
| "nth_opt (x # xs) 0 = Some x"
| "nth_opt (x # xs) (Suc i) = nth_opt xs i"

section \<open>The host display tree\<close>

text \<open>
  The host tree is a store of nodes addressed by identity. A node carries what the
  reconciler reads and writes: \<^verbatim>\<open>nodeName\<close>, \<^verbatim>\<open>nodeType\<close> (1 element, 3 text,
  11 document fragment), text data, \<^verbatim>\<open>childNodes\<close>, \<^verbatim>\<open>parentNode\<close>, the properties
  assigned as \<^verbatim>\<open>t[r] = i\<close> (among them \<^verbatim>\<open>key\<close> and \<^verbatim>\<open>id\<close>), \<^verbatim>\<open>style\<close>, \<^verbatim>\<open>dataset\<close>,
  the snapshot \<^verbatim>\<open>_props\<close> and the back pointer \<^verbatim>\<open>_component\<close>.
\<close>

record dnode =
  n_name :: string
  n_type :: nat
  n_data :: string
  n_kids :: "nat list"
  n_parent :: "nat option"
  n_attrs :: "(string \<times> pval) list"
  n_style :: "(string \<times> string) list"
  n_dataset :: "(string \<times> pval) list"
  n_props :: "(string \<times> pval) list option"
  n_component :: "nat option"

datatype htree = HText string | HElem string "htree list"

text \<open>The document: the node store, the next free identity, the module-level key
  registry \<^verbatim>\<open>s\<close> of the reconciler, the root of the document, and the host's markup
  parser (what \<^verbatim>\<open>insertAdjacentHTML\<close> builds from a string).\<close>

record dom =
  d_nodes :: "nat \<Rightarrow> dnode"
  d_next :: nat
  d_keys :: "string \<Rightarrow> nat option"
  d_root :: nat
  d_parse :: "string \<Rightarrow> htree list"

definition blank :: dnode where
  "blank = \<lparr>n_name = [], n_type = 1, n_data = [], n_kids = [], n_parent = None, n_attrs = [],
     n_style = [], n_dataset = [], n_props = None, n_component = None\<rparr>"

definition node :: "dom \<Rightarrow> nat \<Rightarrow> dnode" where
  "node st i = d_nodes st i"

definition upd_node :: "nat \<Rightarrow> (dnode \<Rightarrow> dnode) \<Rightarrow> dom \<Rightarrow> dom" where
  "upd_node i f st = st\<lparr>d_nodes := (d_nodes st)(i := f (d_nodes st i))\<rparr>"

definition alloc :: "dnode \<Rightarrow> dom \<Rightarrow> nat \<times> dom" where
  "alloc nd st = (d_next st, st\<lparr>d_nodes := (d_nodes st)(d_next st := nd), d_next := Suc (d_next st)\<rparr>)"

definition createTextNode :: "string \<Rightarrow> dom \<Rightarrow> nat \<times> dom" where
  "createTextNode s st = alloc (blank\<lparr>n_name := ''#text'', n_type := 3, n_data := s\<rparr>) st"

text \<open>An element of the HTML namespace, as the host builds it. \<^verbatim>\<open>document.createElement\<close>
  builds one when the name is a valid element name (a letter, \<^verbatim>\<open>_\<close>, \<^verbatim>\<open>:\<close> or a
  character outside ASCII first, then also digits, \<^verbatim>\<open>-\<close> and \<^verbatim>\<open>.\<close>) and throws otherwise.\<close>

definition new_element :: "string \<Rightarrow> dom \<Rightarrow> nat \<times> dom" where
  "new_element tag st = alloc (blank\<lparr>n_name := toUpperCase tag\<rparr>) st"

definition name_start :: "char \<Rightarrow> bool" where
  "name_start c =
     (c \<in> set ''abcdefghijklmnopqrstuvwxyzABCDEFGHIJKLMNOPQRSTUVWXYZ_:'' \<or> 128 \<le> (of_char c :: nat))"

definition name_char :: "char \<Rightarrow> bool" where
  "name_char c = (c \<in> set ''0123456789-.'' \<or> name_start c)"

definition valid_name :: "string \<Rightarrow> bool" where
  "valid_name s = (case s of [] \<Rightarrow> False | c # cs \<Rightarrow> name_start c \<and> list_all name_char cs)"

definition invalid_character_error :: val where
  "invalid_character_error = VError ''InvalidCharacterError''"

definition createElement :: "string \<Rightarrow> dom \<Rightarrow> (nat, dom) result" where
  "createElement tag st =
     (if valid_name tag then (let (e, st1) = new_element tag st in Done e st1)
      else Raised invalid_character_error st)"

definition createElementNS :: "string \<Rightarrow> dom \<Rightarrow> nat \<times> dom" where
  "createElementNS tag st = alloc (blank\<lparr>n_name := tag\<rparr>) st"

definition createDocumentFragment :: "dom \<Rightarrow> nat \<times> dom" where
  "createDocumentFragment st = alloc (blank\<lparr>n_name := ''#document-fragment'', n_type := 11\<rparr>) st"

text \<open>Walks over the store are bounded by the number of allocated nodes, which no
  chain of parents and no path to a descendant exceeds in a tree.\<close>

fun ancestor_within :: "nat \<Rightarrow> dom \<Rightarrow> nat \<Rightarrow> nat \<Rightarrow> bool" where
  "ancestor_within 0 st a p = (a = p)"
| "ancestor_within (Suc k) st a p =
     (a = p \<or> (case n_parent (node st p) of None \<Rightarrow> False | Some q \<Rightarrow> ancestor_within k st a q))"

definition inclusive_ancestor :: "dom \<Rightarrow> nat \<Rightarrow> nat \<Rightarrow> bool" where
  "inclusive_ancestor st a p = ancestor_within (d_next st) st a p"

fun text_within :: "nat \<Rightarrow> dom \<Rightarrow> nat \<Rightarrow> string" where
  "text_within 0 st i = (if n_type (node st i) = 3 then n_data (node st i) else [])"
| "text_within (Suc k) st i =
     (if n_type (node st i) = 3 then n_data (node st i)
      else concat (map (text_within k st) (n_kids (node st i))))"

definition textContent :: "dom \<Rightarrow> nat \<Rightarrow> string" where
  "textContent st i = text_within (d_next st) st i"

definition detach :: "nat \<Rightarrow> dom \<Rightarrow> dom" where
  "detach c st =
     (case n_parent (node st c) of
        None \<Rightarrow> st
      | Some q \<Rightarrow>
          upd_node c (\<lambda>nd. nd\<lparr>n_parent := None\<rparr>)
            (upd_node q (\<lambda>nd. nd\<lparr>n_kids := removeAll c (n_kids nd)\<rparr>) st))"

definition hierarchy_error :: val where
  "hierarchy_error = VError ''HierarchyRequestError''"

definition not_found_error :: val where
  "not_found_error = VError ''NotFoundError''"

definition type_error :: val where
  "type_error = VError ''TypeError''"

definition append_node :: "nat \<Rightarrow> nat \<Rightarrow> dom \<Rightarrow> (nat, dom) result" where
  "append_node p c st =
     (if inclusive_ancestor st c p then Raised hierarchy_error st
      else let st1 = detach c st;
               st2 = upd_node p (\<lambda>nd. nd\<lparr>n_kids := n_kids nd @ [c]\<rparr>) st1
           in Done c (upd_node c (\<lambda>nd. nd\<lparr>n_parent := Some p\<rparr>) st2))"

fun append_nodes :: "nat \<Rightarrow> nat list \<Rightarrow> dom \<Rightarrow> (unit, dom) result" where
  "append_nodes p [] st = Done () st"
| "append_nodes p (c # cs) st =
     (case append_node p c st of
        Raised e st' \<Rightarrow> Raised e st'
      | Done _ st' \<Rightarrow> append_nodes p cs st')"

text \<open>\<^verbatim>\<open>p.appendChild(c)\<close>: a document fragment hands over its children in order; any
  other node is taken out of its old parent and becomes the last child.\<close>

definition appendChild :: "nat \<Rightarrow> nat \<Rightarrow> dom \<Rightarrow> (nat, dom) result" where
  "appendChild p c st =
     (if n_type (node st c) = 11
      then (case append_nodes p (n_kids (node st c)) st of
              Raised e st' \<Rightarrow> Raised e st'
            | Done _ st' \<Rightarrow> Done c st')
      else append_node p c st)"

text \<open>\<^verbatim>\<open>p.replaceChild(new, old)\<close>: \<open>new\<close> leaves its old place (also when that is
  under \<open>p\<close>) and takes the place of \<open>old\<close>, which is left without a parent.\<close>

definition replaceChild :: "nat \<Rightarrow> nat \<Rightarrow> nat \<Rightarrow> dom \<Rightarrow> (nat, dom) result" where
  "replaceChild p new old st =
     (if n_parent (node st old) \<noteq> Some p then Raised not_found_error st
      else if inclusive_ancestor st new p then Raised hierarchy_error st
      else if new = old then Done old st
      else let st1 = detach new st;
               st2 = upd_node p (\<lambda>nd. nd\<lparr>n_kids := map (\<lambda>k. if k = old then new else k) (n_kids nd)\<rparr>) st1;
               st3 = upd_node new (\<lambda>nd. nd\<lparr>n_parent := Some p\<rparr>) st2
           in Done old (upd_node old (\<lambda>nd. nd\<lparr>n_parent := None\<rparr>) st3))"

definition removeChild :: "nat \<Rightarrow> nat \<Rightarrow> dom \<Rightarrow> (nat, dom) result" where
  "removeChild p c st =
     (if n_parent (node st c) \<noteq> Some p then Raised not_found_error st
      else Done c (detach c st))"

text \<open>\<^verbatim>\<open>t.removeChild(t.lastChild)\<close>; with no child left the argument is \<^verbatim>\<open>null\<close> and
  the call throws.\<close>

definition remove_last :: "nat \<Rightarrow> dom \<Rightarrow> (nat, dom) result" where
  "remove_last p st =
     (case n_kids (node st p) of
        [] \<Rightarrow> Raised type_error st
      | ks \<Rightarrow> removeChild p (last ks) st)"

section \<open>The tree reconciler (module 3)\<close>

datatype 'a slot = Absent | Foreign | Present 'a

text \<open>Reading \<^verbatim>\<open>obj[name]\<close> from a dictionary created as \<^verbatim>\<open>{}\<close>: an own entry, else
  an inherited property of \<^verbatim>\<open>Object.prototype\<close>, else \<^verbatim>\<open>undefined\<close>.\<close>

definition slot_of :: "(string \<Rightarrow> 'a option) \<Rightarrow> string \<Rightarrow> 'a slot" where
  "slot_of m name =
     (case m name of Some x \<Rightarrow> Present x | None \<Rightarrow> if inherited name then Foreign else Absent)"

fun put :: "'k \<Rightarrow> 'v \<Rightarrow> ('k \<times> 'v) list \<Rightarrow> ('k \<times> 'v) list" where
  "put k v [] = [(k, v)]"
| "put k v (kv # xs) = (if fst kv = k then (k, v) # xs else kv # put k v xs)"

definition attach :: "nat \<Rightarrow> nat \<Rightarrow> dom \<Rightarrow> dom" where
  "attach p c st =
     upd_node c (\<lambda>nd. nd\<lparr>n_parent := Some p\<rparr>)
       (upd_node p (\<lambda>nd. nd\<lparr>n_kids := n_kids nd @ [c]\<rparr>) st)"

fun build_html :: "htree \<Rightarrow> dom \<Rightarrow> nat \<times> dom"
  and build_html_kids :: "nat \<Rightarrow> htree list \<Rightarrow> dom \<Rightarrow> dom" where
  "build_html (HText s) st = createTextNode s st"
| "build_html (HElem tag hs) st =
     (let (e, st1) = new_element tag st in (e, build_html_kids e hs st1))"
| "build_html_kids p [] st = st"
| "build_html_kids p (h # hs) st =
     (let (c, st1) = build_html h st in build_html_kids p hs (attach p c st1))"

text \<open>\<^verbatim>\<open>f\<close>: a string with the prefix \<^verbatim>\<open>_html:\<close> becomes a \<^verbatim>\<open>div\<close> holding the parsed
  markup, any other string a text node.\<close>

definition createText :: "string \<Rightarrow> dom \<Rightarrow> nat \<times> dom" where
  "createText t st =
     (if startsWith t ''_html:''
      then (let (e, st1) = new_element ''div'' st
            in (e, build_html_kids e (d_parse st1 (drop 6 t)) st1))
      else createTextNode t st)"

text \<open>The inner function of \<^verbatim>\<open>p\<close> that merges the snapshot with the new
  properties: every old name is kept with the value \<^verbatim>\<open>""\<close> unless the new properties
  give it one.\<close>

definition merge_props :: "(string \<times> pval) list \<Rightarrow> (string \<times> pval) list \<Rightarrow> (string \<times> pval) list" where
  "merge_props old new =
     map (\<lambda>kv. (fst kv, case map_of new (fst kv) of Some v \<Rightarrow> v | None \<Rightarrow> PStr [])) old
     @ filter (\<lambda>kv. map_of old (fst kv) = None) new"

definition style_of :: "dom \<Rightarrow> nat \<Rightarrow> string \<Rightarrow> string" where
  "style_of st t a = (case map_of (n_style (node st t)) a of Some v \<Rightarrow> v | None \<Rightarrow> [])"

definition set_style :: "nat \<Rightarrow> string \<times> string \<Rightarrow> dom \<Rightarrow> dom" where
  "set_style t av st =
     (if style_of st t (fst av) \<noteq> snd av
      then upd_node t (\<lambda>nd. nd\<lparr>n_style := put (fst av) (snd av) (n_style nd)\<rparr>) st
      else st)"

definition differs :: "pval option \<Rightarrow> pval \<Rightarrow> bool" where
  "differs old i = (case old of None \<Rightarrow> True | Some v \<Rightarrow> \<not> strict_eq v i)"

text \<open>The body of the loop of \<^verbatim>\<open>p\<close> for a property \<open>r\<close> whose value \<open>i\<close> differs from
  the snapshot. The host keeps a \<^verbatim>\<open>dataset\<close> entry as the string of the value stored.\<close>

definition apply_prop :: "nat \<Rightarrow> string \<Rightarrow> pval \<Rightarrow> dom \<Rightarrow> dom" where
  "apply_prop t r i st =
     (if r = ''style''
      then (let st1 = (if n_style (node st t) \<noteq> []
                       then upd_node t (\<lambda>nd. nd\<lparr>n_style := []\<rparr>) st else st)
            in case i of PObj _ es \<Rightarrow> fold (set_style t) es st1 | _ \<Rightarrow> st1)
      else if startsWith r ''data-''
      then (if differs (map_of (n_dataset (node st t)) (drop 5 r)) i
            then upd_node t (\<lambda>nd. nd\<lparr>n_dataset := put (drop 5 r) (PStr (property_key i)) (n_dataset nd)\<rparr>) st
            else st)
      else (let st1 = (if differs (map_of (n_attrs (node st t)) r) i
                       then upd_node t (\<lambda>nd. nd\<lparr>n_attrs := put r i (n_attrs nd)\<rparr>) st
                       else st)
            in if r = ''key'' \<and> truthy_p i
               then st1\<lparr>d_keys := (d_keys st1)(property_key i \<mapsto> t)\<rparr>
               else st1))"

definition updateProps :: "nat \<Rightarrow> (string \<times> pval) list \<Rightarrow> dom \<Rightarrow> dom" where
  "updateProps t e st =
     (let n = (case n_props (node st t) of None \<Rightarrow> [] | Some m \<Rightarrow> m);
          e' = merge_props n e;
          st1 = upd_node t (\<lambda>nd. nd\<lparr>n_props := Some e'\<rparr>) st
      in fold (\<lambda>ri s. if differs (map_of n (fst ri)) (snd ri) then apply_prop t (fst ri) (snd ri) s else s)
           e' st1)"

text \<open>What \<^verbatim>\<open>JSON.stringify\<close> prints for a description node; function-valued
  properties are left out, as JSON does.\<close>

definition json_char :: "char \<Rightarrow> string" where
  "json_char c =
     (if c = CHR 0x22 \<or> c = CHR 0x5C then [CHR 0x5C, c]
      else if c = CHR 0x08 then [CHR 0x5C, CHR ''b'']
      else if c = CHR 0x09 then [CHR 0x5C, CHR ''t'']
      else if c = CHR 0x0A then [CHR 0x5C, CHR ''n'']
      else if c = CHR 0x0C then [CHR 0x5C, CHR ''f'']
      else if c = CHR 0x0D then [CHR 0x5C, CHR ''r'']
      else if (of_char c :: nat) < 32
      then [CHR 0x5C, CHR ''u'', CHR ''0'', CHR ''0'',
            ''0123456789abcdef'' ! ((of_char c :: nat) div 16),
            ''0123456789abcdef'' ! ((of_char c :: nat) mod 16)]
      else [c])"

definition json_string :: "string \<Rightarrow> string" where
  "json_string s = CHR 0x22 # concat (map json_char s) @ [CHR 0x22]"

fun join_commas :: "string list \<Rightarrow> string" where
  "join_commas [] = []"
| "join_commas [x] = x"
| "join_commas (x # xs) = x @ '','' @ join_commas xs"

fun json_pval :: "pval \<Rightarrow> string option" where
  "json_pval (PStr s) = Some (json_string s)"
| "json_pval (PNum n) = Some (show_int n)"
| "json_pval (PBool b) = Some (if b then ''true'' else ''false'')"
| "json_pval (PFun _) = None"
| "json_pval (PObj _ es) =
     Some (''{'' @ join_commas (map (\<lambda>kv. json_string (fst kv) @ '':'' @ json_string (snd kv)) es) @ ''}'')"

definition json_props :: "(string \<times> pval) list \<Rightarrow> string" where
  "json_props ps =
     ''{'' @ join_commas (concat (map (\<lambda>kv. case json_pval (snd kv) of
                                            None \<Rightarrow> [] | Some j \<Rightarrow> [json_string (fst kv) @ '':'' @ j]) ps))
     @ ''}''"

fun stringify :: "vnode \<Rightarrow> string" where
  "stringify (VText s) = json_string s"
| "stringify (VElem tag ps kids) =
     ''{'' @ json_string ''tag'' @ '':'' @ json_string tag @ '','' @ json_string ''props'' @ '':''
     @ json_props ps @ '','' @ json_string ''children'' @ '':['' @ join_commas (map stringify kids) @ '']}''"

text \<open>\<^verbatim>\<open>l\<close> materialises a description node: a string through \<^verbatim>\<open>f\<close>, an object
  without a tag as the text of its JSON, an element with its properties and then its
  children appended one by one.\<close>

fun create :: "vnode \<Rightarrow> dom \<Rightarrow> (nat, dom) result"
  and create_kids :: "nat \<Rightarrow> vnode list \<Rightarrow> dom \<Rightarrow> (unit, dom) result" where
  "create (VText s) st = (let (e, st1) = createText s st in Done e st1)"
| "create (VElem tag ps kids) st =
     (if tag = [] then (let (e, st1) = createText (stringify (VElem tag ps kids)) st in Done e st1)
      else (case (if tag = ''svg'' then (let (e, st1) = createElementNS tag st in Done e st1)
                  else createElement tag st) of
              Raised x s \<Rightarrow> Raised x s
            | Done e st1 \<Rightarrow>
                (case create_kids e kids (updateProps e ps st1) of
                   Raised x s \<Rightarrow> Raised x s
                 | Done _ s \<Rightarrow> Done e s)))"
| "create_kids e [] st = Done () st"
| "create_kids e (k # ks) st =
     (case create k st of
        Raised x s \<Rightarrow> Raised x s
      | Done c s \<Rightarrow>
          (case appendChild e c s of
             Raised x s' \<Rightarrow> Raised x s'
           | Done _ s' \<Rightarrow> create_kids e ks s'))"

fun remove_tail :: "nat \<Rightarrow> nat \<Rightarrow> dom \<Rightarrow> (unit, dom) result" where
  "remove_tail t 0 st = Done () st"
| "remove_tail t (Suc k) st =
     (case remove_last t st of
        Raised x s \<Rightarrow> Raised x s
      | Done _ s \<Rightarrow> remove_tail t k s)"

definition tag_of :: "vnode \<Rightarrow> string" where
  "tag_of e = (case e of VText _ \<Rightarrow> [] | VElem tag _ _ \<Rightarrow> tag)"

definition key_of :: "vnode \<Rightarrow> pval option" where
  "key_of e = (case e of VText _ \<Rightarrow> None | VElem _ ps _ \<Rightarrow> map_of ps ''key'')"

definition has_key :: "dom \<Rightarrow> nat \<Rightarrow> pval \<Rightarrow> bool" where
  "has_key st i a = (case map_of (n_attrs (node st i)) ''key'' of None \<Rightarrow> False | Some v \<Rightarrow> strict_eq v a)"

definition replace_new :: "nat \<Rightarrow> vnode \<Rightarrow> nat \<Rightarrow> dom \<Rightarrow> (unit, dom) result" where
  "replace_new q e t st =
     (case create e st of
        Raised x s \<Rightarrow> Raised x s
      | Done c s \<Rightarrow>
          (case replaceChild q c t s of Raised x s' \<Rightarrow> Raised x s' | Done _ s' \<Rightarrow> Done () s'))"

text \<open>
  \<^verbatim>\<open>c\<close> (\<open>update\<close>) patches one host node: on equal tags it reconciles the children and
  then the properties, otherwise it replaces the node under its parent by a fresh
  subtree. \<^verbatim>\<open>d\<close> (\<open>updateChildren\<close>) reconciles the first
  \<open>min(existing, new)\<close> positions (\<open>children_loop\<close>), removes the trailing host
  children and appends the remaining new ones through a document fragment.
  \<open>relocate\<close> is the branch of the loop for a keyed child whose key differs from the
  key of the host node at the position.
\<close>

definition relocate :: "nat \<Rightarrow> nat \<Rightarrow> vnode \<Rightarrow> pval \<Rightarrow> dom \<Rightarrow> (unit, dom) result" where
  "relocate t i o' a st =
     (case slot_of (d_keys st) (property_key a) of
        Present u \<Rightarrow>
          (case replaceChild t u i st of
             Raised x s \<Rightarrow> Raised x s
           | Done _ s \<Rightarrow>
               (case appendChild t i s of Raised x s' \<Rightarrow> Raised x s' | Done _ s' \<Rightarrow> Done () s'))
      | Foreign \<Rightarrow> Raised type_error st
      | Absent \<Rightarrow>
          (case create o' st of
             Raised x s \<Rightarrow> Raised x s
           | Done c s \<Rightarrow>
               (case appendChild t c s of Raised x s' \<Rightarrow> Raised x s' | Done _ s' \<Rightarrow> Done () s')))"

definition patch_text :: "nat \<Rightarrow> nat \<Rightarrow> string \<Rightarrow> dom \<Rightarrow> (unit, dom) result" where
  "patch_text t i s st =
     (if textContent st i \<noteq> s
      then (if n_type (node st i) = 3
            then Done () (upd_node i (\<lambda>nd. nd\<lparr>n_data := s\<rparr>) st)
            else (let (c, st1) = createText s st
                  in case replaceChild t c i st1 of
                       Raised x s' \<Rightarrow> Raised x s'
                     | Done _ s' \<Rightarrow> Done () s'))
      else Done () st)"

fun update :: "nat \<Rightarrow> vnode \<Rightarrow> dom \<Rightarrow> (unit, dom) result"
  and updateChildren :: "nat \<Rightarrow> vnode list \<Rightarrow> dom \<Rightarrow> (unit, dom) result"
  and children_loop :: "nat \<Rightarrow> nat \<Rightarrow> nat \<Rightarrow> vnode list \<Rightarrow> dom \<Rightarrow> (unit, dom) result" where
  "update t (VText s) st =
     (if n_name (node st t) = []
      then Raised type_error st
      else (case n_parent (node st t) of
              None \<Rightarrow> Raised type_error st
            | Some q \<Rightarrow> replace_new q (VText s) t st))"
| "update t (VElem tag ps kids) st =
     (if n_name (node st t) = toUpperCase tag
      then (case updateChildren t kids st of
              Raised x s \<Rightarrow> Raised x s
            | Done _ s \<Rightarrow> Done () (updateProps t ps s))
      else (case n_parent (node st t) of
              None \<Rightarrow> Raised type_error st
            | Some q \<Rightarrow> replace_new q (VElem tag ps kids) t st))"
| "updateChildren t e st =
     (let n = min (length (n_kids (node st t))) (length e)
      in case children_loop t 0 n e st of
           Raised x s \<Rightarrow> Raised x s
         | Done _ s \<Rightarrow>
             (case remove_tail t (length (n_kids (node s t)) - n) s of
                Raised x s1 \<Rightarrow> Raised x s1
              | Done _ s1 \<Rightarrow>
                  if length e > n
                  then (let (p, s2) = createDocumentFragment s1
                        in case create_kids p (drop n e) s2 of
                             Raised x s3 \<Rightarrow> Raised x s3
                           | Done _ s3 \<Rightarrow>
                               (case appendChild t p s3 of
                                  Raised x s4 \<Rightarrow> Raised x s4
                                | Done _ s4 \<Rightarrow> Done () s4))
                  else Done () s1))"
| "children_loop t r n [] st = Done () st"
| "children_loop t r n (VText s # os) st =
     (if r < n
      then (case nth_opt (n_kids (node st t)) r of
              None \<Rightarrow> Raised type_error st
            | Some i \<Rightarrow>
                (case patch_text t i s st of
                   Raised x s1 \<Rightarrow> Raised x s1
                 | Done _ s1 \<Rightarrow> children_loop t (Suc r) n os s1))
      else Done () st)"
| "children_loop t r n (VElem tag ps kids # os) st =
     (if r < n
      then (case nth_opt (n_kids (node st t)) r of
              None \<Rightarrow> Raised type_error st
            | Some i \<Rightarrow>
                (case (case map_of ps ''key'' of
                         None \<Rightarrow> Done () st
                       | Some a \<Rightarrow>
                           if truthy_p a \<and> \<not> has_key st i a
                           then relocate t i (VElem tag ps kids) a st
                           else Done () st) of
                   Raised x s1 \<Rightarrow> Raised x s1
                 | Done _ s1 \<Rightarrow>
                     (case nth_opt (n_kids (node s1 t)) r of
                        None \<Rightarrow> Raised type_error s1
                      | Some j \<Rightarrow>
                          (case update j (VElem tag ps kids) s1 of
                             Raised x s2 \<Rightarrow> Raised x s2
                           | Done _ s2 \<Rightarrow> children_loop t (Suc r) n os s2))))
      else Done () st)"

text \<open>\<^verbatim>\<open>u\<close> (\<^verbatim>\<open>updateElement\<close>, exported as \<^verbatim>\<open>render\<close>): nothing for an absent tree,
  \<^verbatim>\<open>d\<close> for an array, otherwise patch the first child or attach a fresh subtree.\<close>

definition updateElement :: "nat \<Rightarrow> vtree \<Rightarrow> dom \<Rightarrow> (unit, dom) result" where
  "updateElement t e st =
     (case e of
        VNothing \<Rightarrow> Done () st
      | VList vs \<Rightarrow> updateChildren t vs st
      | VSingle v \<Rightarrow>
          (case n_kids (node st t) of
             [] \<Rightarrow> (case create v st of
                      Raised x s \<Rightarrow> Raised x s
                    | Done c s \<Rightarrow>
                        (case appendChild t c s of Raised x s' \<Rightarrow> Raised x s' | Done _ s' \<Rightarrow> Done () s'))
           | f # _ \<Rightarrow> update f v st))"

text \<open>\<^verbatim>\<open>document.getElementById\<close>: the first element in document order, below the root,
  whose \<^verbatim>\<open>id\<close> is the given non-empty string.\<close>

fun find_id :: "nat \<Rightarrow> dom \<Rightarrow> string \<Rightarrow> nat list \<Rightarrow> nat option" where
  "find_id 0 st s ws = None"
| "find_id (Suc k) st s [] = None"
| "find_id (Suc k) st s (i # ws) =
     (if n_type (node st i) = 1 \<and> map_of (n_attrs (node st i)) ''id'' = Some (PStr s) then Some i
      else find_id k st s (n_kids (node st i) @ ws))"

definition getElementById :: "dom \<Rightarrow> string \<Rightarrow> nat option" where
  "getElementById st s = (if s = [] then None else find_id (d_next st) st s (n_kids (node st (d_root st))))"

section \<open>The world: buses, components, timers and promises\<close>

text \<open>
  An options object is shared by reference between the bus (which reads \<^verbatim>\<open>once\<close> and
  \<^verbatim>\<open>delay\<close> and writes the timer handle \<^verbatim>\<open>_t\<close>) and the commit routine (which reads
  \<^verbatim>\<open>render\<close>, \<^verbatim>\<open>history\<close> and \<^verbatim>\<open>callback\<close>), so options objects live in a store.
  \<open>o_once\<close> is the truthiness of \<^verbatim>\<open>once\<close>, \<open>o_delay\<close> the number \<^verbatim>\<open>delay\<close> (0 when
  absent, which is falsy as well); \<open>o_render\<close> and \<open>o_history\<close> are \<open>Some False\<close>
  exactly when the field is \<^verbatim>\<open>false\<close>.
\<close>

record options =
  o_once :: bool
  o_delay :: nat
  o_timer :: "nat option"
  o_render :: "bool option"
  o_history :: "bool option"
  o_callback :: "nat option"

definition no_options :: options where
  "no_options = \<lparr>o_once = False, o_delay = 0, o_timer = None, o_render = None,
     o_history = None, o_callback = None\<rparr>"

text \<open>
  Functions held by the bus. \<open>Noop\<close> is a function without effect (the bundle's own
  \<^verbatim>\<open>debug\<close> listener). \<open>Callback k x\<close> is a function of the application: the model
  records its call with the arguments, and it throws \<open>x\<close> when \<open>x\<close> is given.
  \<open>Action c name f r\<close> is the closure \<^verbatim>\<open>add_action\<close> builds for component \<open>c\<close> around
  the update function \<open>f\<close>; \<open>HistoryPrev c\<close> and \<open>HistoryNext c\<close> are the two closures
  \<^verbatim>\<open>mount\<close> builds. Update and view functions of the application are pure.
\<close>

datatype handler =
    Noop
  | Callback nat "val option"
  | Action nat string "val \<Rightarrow> val list \<Rightarrow> val" nat
  | HistoryPrev nat
  | HistoryNext nat

record sub =
  s_fn :: handler
  s_opts :: nat

datatype action = Bare "val \<Rightarrow> val list \<Rightarrow> val" | Tuple "val \<Rightarrow> val list \<Rightarrow> val" "nat option"

datatype target = TUndefined | TNull | TId string | TNode nat

text \<open>The \<^verbatim>\<open>history\<close> field of the mount options: a falsy value, or a truthy one
  with its \<^verbatim>\<open>prev\<close> and \<^verbatim>\<open>next\<close> fields (absent on \<^verbatim>\<open>true\<close>).\<close>

datatype history_opt = HistoryOff | HistoryOn "string option" "string option"

record config =
  cf_render :: "bool option"
  cf_history :: "history_opt option"
  cf_global_event :: "bool option"

record component =
  c_state :: val
  c_view :: "(val \<Rightarrow> vtree) option"
  c_update :: "(string \<times> action) list"
  c_options :: "config option"
  c_app :: "string \<Rightarrow> sub list option"
  c_history :: "val list"
  c_history_idx :: int
  c_element :: target
  c_global_event :: bool
  c_enable_history :: bool
  c_rendered :: "nat option"
  c_model :: val

record timer =
  t_id :: nat
  t_due :: nat
  t_fn :: handler
  t_args :: "val list"
  t_opts :: nat

record reaction =
  r_promise :: nat
  r_comp :: nat
  r_opts :: options

datatype entry = AssertionFailed string | ErrorLogged val

text \<open>
  \<open>w_shared\<close> is \<^verbatim>\<open>_events\<close> of the default bus instance that every module imports;
  \<open>w_calls\<close> lists the calls of application callbacks, \<open>w_console\<close> what was written
  to the console, \<open>w_uncaught\<close> the errors nothing caught (exceptions of timer
  callbacks and rejections of promises without a handler).
\<close>

record world =
  w_shared :: "string \<Rightarrow> sub list option"
  w_comps :: "nat \<Rightarrow> component"
  w_next_comp :: nat
  w_opts :: "nat \<Rightarrow> options"
  w_next_opts :: nat
  w_timers :: "timer list"
  w_next_timer :: nat
  w_now :: nat
  w_reactions :: "reaction list"
  w_calls :: "(nat \<times> val list) list"
  w_console :: "entry list"
  w_uncaught :: "val list"
  w_dom :: dom

datatype busref = Shared | Private nat

definition events_of :: "busref \<Rightarrow> world \<Rightarrow> string \<Rightarrow> sub list option" where
  "events_of b w = (case b of Shared \<Rightarrow> w_shared w | Private c \<Rightarrow> c_app (w_comps w c))"

definition upd_comp :: "nat \<Rightarrow> (component \<Rightarrow> component) \<Rightarrow> world \<Rightarrow> world" where
  "upd_comp c f w = w\<lparr>w_comps := (w_comps w)(c := f (w_comps w c))\<rparr>"

definition set_events :: "busref \<Rightarrow> string \<Rightarrow> sub list \<Rightarrow> world \<Rightarrow> world" where
  "set_events b name l w =
     (case b of
        Shared \<Rightarrow> w\<lparr>w_shared := (w_shared w)(name \<mapsto> l)\<rparr>
      | Private c \<Rightarrow> upd_comp c (\<lambda>k. k\<lparr>c_app := (c_app k)(name \<mapsto> l)\<rparr>) w)"

definition upd_opts :: "nat \<Rightarrow> (options \<Rightarrow> options) \<Rightarrow> world \<Rightarrow> world" where
  "upd_opts r f w = w\<lparr>w_opts := (w_opts w)(r := f (w_opts w r))\<rparr>"

definition new_options :: "options \<Rightarrow> world \<Rightarrow> nat \<times> world" where
  "new_options o' w =
     (w_next_opts w, w\<lparr>w_opts := (w_opts w)(w_next_opts w := o'), w_next_opts := Suc (w_next_opts w)\<rparr>)"

definition log :: "entry \<Rightarrow> world \<Rightarrow> world" where
  "log e w = w\<lparr>w_console := w_console w @ [e]\<rparr>"

definition called :: "nat \<Rightarrow> val list \<Rightarrow> world \<Rightarrow> world" where
  "called k args w = w\<lparr>w_calls := w_calls w @ [(k, args)]\<rparr>"

section \<open>The event bus (module 0)\<close>

text \<open>\<^verbatim>\<open>on(t, e, n)\<close>: a fresh \<^verbatim>\<open>{}\<close> stands in for absent options; the subscription is
  pushed on \<^verbatim>\<open>this._events[t] || []\<close>, which throws when that value is an inherited
  property and has no \<^verbatim>\<open>push\<close>.\<close>

definition App_on :: "busref \<Rightarrow> string \<Rightarrow> handler \<Rightarrow> nat option \<Rightarrow> world \<Rightarrow> (unit, world) result" where
  "App_on b name fn n w =
     (let (r, w1) = (case n of None \<Rightarrow> new_options no_options w | Some r \<Rightarrow> (r, w))
      in case slot_of (events_of b w1) name of
           Foreign \<Rightarrow> Raised type_error w1
         | Absent \<Rightarrow> Done () (set_events b name [\<lparr>s_fn = fn, s_opts = r\<rparr>] w1)
         | Present l \<Rightarrow> Done () (set_events b name (l @ [\<lparr>s_fn = fn, s_opts = r\<rparr>]) w1))"

text \<open>\<^verbatim>\<open>once(t, e)\<close> is \<^verbatim>\<open>this.on(t, e)\<close>.\<close>

definition App_once :: "busref \<Rightarrow> string \<Rightarrow> handler \<Rightarrow> world \<Rightarrow> (unit, world) result" where
  "App_once b name fn w = App_on b name fn None w"

definition clearTimeout :: "nat \<Rightarrow> world \<Rightarrow> world" where
  "clearTimeout tid w = w\<lparr>w_timers := filter (\<lambda>tm. t_id tm \<noteq> tid) (w_timers w)\<rparr>"

text \<open>\<^verbatim>\<open>delay(t, e, n, r)\<close>: clear the timer the options object holds, start a new one
  that will call \<open>e\<close> with the arguments \<open>n\<close>, and store its handle in the options
  object.\<close>

definition App_delay :: "handler \<Rightarrow> val list \<Rightarrow> nat \<Rightarrow> world \<Rightarrow> world" where
  "App_delay fn args r w =
     (let w1 = (case o_timer (w_opts w r) of Some tid \<Rightarrow> clearTimeout tid w | None \<Rightarrow> w);
          tid = w_next_timer w1;
          tm = \<lparr>t_id = tid, t_due = w_now w1 + o_delay (w_opts w1 r), t_fn = fn, t_args = args, t_opts = r\<rparr>
      in upd_opts r (\<lambda>o'. o'\<lparr>o_timer := Some tid\<rparr>)
           (w1\<lparr>w_timers := w_timers w1 @ [tm], w_next_timer := Suc tid\<rparr>))"

section \<open>The component state machine (module 5)\<close>

definition is_global_event :: "string \<Rightarrow> bool" where
  "is_global_event t = (t \<noteq> [] \<and> (startsWith t ''#'' \<or> startsWith t ''/''))"

definition route :: "nat \<Rightarrow> string \<Rightarrow> world \<Rightarrow> busref" where
  "route c name w = (if c_global_event (w_comps w c) \<or> is_global_event name then Shared else Private c)"

definition Component_on :: "nat \<Rightarrow> string \<Rightarrow> handler \<Rightarrow> nat option \<Rightarrow> world \<Rightarrow> (unit, world) result" where
  "Component_on c name fn n w = App_on (route c name w) name fn n w"

definition resolve :: "target \<Rightarrow> dom \<Rightarrow> nat option" where
  "resolve el st = (case el of TId s \<Rightarrow> getElementById st s | TNode i \<Rightarrow> Some i | _ \<Rightarrow> None)"

definition vdom_or_note :: "vtree \<Rightarrow> val" where
  "vdom_or_note e =
     (if e = VNothing \<or> e = VSingle (VText []) then VStr ''[vdom is null - no render]'' else VTree e)"

text \<open>In the definitions below \<open>call\<close> is the bus's \<^verbatim>\<open>run\<close> as the code calls it from
  inside a handler; it is tied to \<open>run\<close> further down.\<close>

text \<open>The second half of \<^verbatim>\<open>renderState\<close>: resolve the element, mark it with the
  component, patch it, and call \<^verbatim>\<open>rendered\<close> when the component has one.\<close>

definition paint :: "nat \<Rightarrow> vtree \<Rightarrow> world \<Rightarrow> (unit, world) result" where
  "paint c e w =
     (case resolve (c_element (w_comps w c)) (w_dom w) of
        None \<Rightarrow> Done () w
      | Some n \<Rightarrow>
          (case updateElement n e (upd_node n (\<lambda>nd. nd\<lparr>n_component := Some c\<rparr>) (w_dom w)) of
             Raised x d \<Rightarrow> Raised x (w\<lparr>w_dom := d\<rparr>)
           | Done _ d \<Rightarrow>
               (case c_rendered (w_comps w c) of
                  None \<Rightarrow> Done () (w\<lparr>w_dom := d\<rparr>)
                | Some k \<Rightarrow> Done () (called k [c_state (w_comps w c)] (w\<lparr>w_dom := d\<rparr>)))))"

definition renderState ::
  "(busref \<Rightarrow> string \<Rightarrow> val list \<Rightarrow> world \<Rightarrow> (unit, world) result) \<Rightarrow> nat \<Rightarrow> val \<Rightarrow> world \<Rightarrow> (unit, world) result" where
  "renderState call c t w =
     (case c_view (w_comps w c) of
        None \<Rightarrow> Done () w
      | Some v \<Rightarrow>
          (case call Shared ''debug''
                  [VObj [(''component'', VRef c), (''state'', t), (''vdom'', vdom_or_note (v t))]] w of
             Raised x w1 \<Rightarrow> Raised x w1
           | Done _ w1 \<Rightarrow> paint c (v t) w1))"

text \<open>The tail of a commit: the state is appended to the history unless the options
  say \<^verbatim>\<open>history: false\<close> or history is off, and \<^verbatim>\<open>options.callback\<close> is called.\<close>

definition record_history :: "nat \<Rightarrow> val \<Rightarrow> options \<Rightarrow> world \<Rightarrow> world" where
  "record_history c t e w =
     (if o_history e \<noteq> Some False \<and> c_enable_history (w_comps w c)
      then upd_comp c (\<lambda>k. k\<lparr>c_history := c_history k @ [t],
                            c_history_idx := int (length (c_history k @ [t])) - 1\<rparr>) w
      else w)"

definition commit_callback :: "nat \<Rightarrow> options \<Rightarrow> world \<Rightarrow> world" where
  "commit_callback c e w =
     (case o_callback e of None \<Rightarrow> w | Some k \<Rightarrow> called k [c_state (w_comps w c)] w)"

definition commit ::
  "(busref \<Rightarrow> string \<Rightarrow> val list \<Rightarrow> world \<Rightarrow> (unit, world) result) \<Rightarrow> nat \<Rightarrow> val \<Rightarrow> options \<Rightarrow> world \<Rightarrow> (unit, world) result" where
  "commit call c t e w =
     (let w1 = upd_comp c (\<lambda>k. k\<lparr>c_state := t\<rparr>) w
      in case (if o_render e \<noteq> Some False then renderState call c t w1 else Done () w1) of
           Raised x w2 \<Rightarrow> Raised x w2
         | Done _ w2 \<Rightarrow> Done () (commit_callback c e (record_history c t e w2)))"

text \<open>\<^verbatim>\<open>setState(t, e)\<close>: a promise defers the commit to its settlement, \<^verbatim>\<open>null\<close> and
  \<^verbatim>\<open>undefined\<close> are skipped (\<^verbatim>\<open>null == t\<close>), any other value is committed.\<close>

definition setState ::
  "(busref \<Rightarrow> string \<Rightarrow> val list \<Rightarrow> world \<Rightarrow> (unit, world) result) \<Rightarrow> nat \<Rightarrow> val \<Rightarrow> options \<Rightarrow> world \<Rightarrow> (unit, world) result" where
  "setState call c t e w =
     (case t of
        VPromise p \<Rightarrow> Done () (w\<lparr>w_reactions := w_reactions w @ [\<lparr>r_promise = p, r_comp = c, r_opts = e\<rparr>]\<rparr>)
      | VNull \<Rightarrow> Done () w
      | VUndefined \<Rightarrow> Done () w
      | _ \<Rightarrow> commit call c t e w)"

definition committable :: "val \<Rightarrow> bool" where
  "committable t = (case t of VPromise p \<Rightarrow> False | VNull \<Rightarrow> False | VUndefined \<Rightarrow> False | _ \<Rightarrow> True)"

definition history_at :: "val list \<Rightarrow> int \<Rightarrow> val" where
  "history_at h i = (if 0 \<le> i \<and> i < int (length h) then h ! nat i else VUndefined)"

definition nav_options :: options where
  "nav_options = no_options\<lparr>o_render := Some True, o_history := Some False\<rparr>"

definition history_prev ::
  "(busref \<Rightarrow> string \<Rightarrow> val list \<Rightarrow> world \<Rightarrow> (unit, world) result) \<Rightarrow> nat \<Rightarrow> world \<Rightarrow> (unit, world) result" where
  "history_prev call c w =
     (let w1 = upd_comp c (\<lambda>k. k\<lparr>c_history_idx := c_history_idx k - 1\<rparr>) w
      in if c_history_idx (w_comps w1 c) \<ge> 0
         then setState call c (history_at (c_history (w_comps w1 c)) (c_history_idx (w_comps w1 c))) nav_options w1
         else Done () (upd_comp c (\<lambda>k. k\<lparr>c_history_idx := 0\<rparr>) w1))"

definition history_next ::
  "(busref \<Rightarrow> string \<Rightarrow> val list \<Rightarrow> world \<Rightarrow> (unit, world) result) \<Rightarrow> nat \<Rightarrow> world \<Rightarrow> (unit, world) result" where
  "history_next call c w =
     (let w1 = upd_comp c (\<lambda>k. k\<lparr>c_history_idx := c_history_idx k + 1\<rparr>) w
      in if c_history_idx (w_comps w1 c) < int (length (c_history (w_comps w1 c)))
         then setState call c (history_at (c_history (w_comps w1 c)) (c_history_idx (w_comps w1 c))) nav_options w1
         else Done () (upd_comp c (\<lambda>k. k\<lparr>c_history_idx := int (length (c_history k)) - 1\<rparr>) w1))"

text \<open>Calling a function the bus holds, with the arguments of the dispatch.\<close>

definition invoke ::
  "(busref \<Rightarrow> string \<Rightarrow> val list \<Rightarrow> world \<Rightarrow> (unit, world) result) \<Rightarrow> handler \<Rightarrow> val list \<Rightarrow> world \<Rightarrow> (unit, world) result" where
  "invoke call h args w =
     (case h of
        Noop \<Rightarrow> Done () w
      | Callback k x \<Rightarrow>
          (case x of None \<Rightarrow> Done () (called k args w) | Some e \<Rightarrow> Raised e (called k args w))
      | Action c name f r \<Rightarrow>
          (let s = f (c_state (w_comps w c)) args
           in case call Shared ''debug''
                     [VObj [(''component'', VRef c), (''event'', VStr name), (''e'', VArr args),
                            (''state'', c_state (w_comps w c)), (''newState'', s), (''options'', VRef r)]] w of
                Raised e w1 \<Rightarrow> Raised e w1
              | Done _ w1 \<Rightarrow> setState call c s (w_opts w1 r) w1)
      | HistoryPrev c \<Rightarrow> history_prev call c w
      | HistoryNext c \<Rightarrow> history_next call c w)"

text \<open>The callback of \<^verbatim>\<open>filter\<close> in \<^verbatim>\<open>run\<close>, over the array read at the start: a
  subscription with a delay is scheduled, any other is called; it is kept unless its
  options say \<^verbatim>\<open>once\<close>.\<close>

fun run_subs ::
  "(busref \<Rightarrow> string \<Rightarrow> val list \<Rightarrow> world \<Rightarrow> (unit, world) result) \<Rightarrow> val list \<Rightarrow> sub list \<Rightarrow> sub list \<Rightarrow> world \<Rightarrow> (sub list, world) result" where
  "run_subs call args [] kept w = Done kept w"
| "run_subs call args (s # ss) kept w =
     (case (if o_delay (w_opts w (s_opts s)) \<noteq> 0
            then Done () (App_delay (s_fn s) args (s_opts s) w)
            else invoke call (s_fn s) args w) of
        Raised x w1 \<Rightarrow> Raised x w1
      | Done _ w1 \<Rightarrow>
          run_subs call args ss (if o_once (w_opts w1 (s_opts s)) then kept else kept @ [s]) w1)"

text \<open>\<^verbatim>\<open>run(t, ...args)\<close>: \<^verbatim>\<open>console.assert\<close> writes to the console when the event has
  no entry and the call returns; an entry that is not an array has no \<^verbatim>\<open>filter\<close>, and
  the call throws; otherwise the filtered array is stored back.\<close>

definition no_subscriber :: "string \<Rightarrow> entry" where
  "no_subscriber name = AssertionFailed (''No subscriber for event: '' @ name)"

definition App_run ::
  "(busref \<Rightarrow> string \<Rightarrow> val list \<Rightarrow> world \<Rightarrow> (unit, world) result) \<Rightarrow> busref \<Rightarrow> string \<Rightarrow> val list \<Rightarrow> world \<Rightarrow> (unit, world) result" where
  "App_run call b name args w =
     (case slot_of (events_of b w) name of
        Absent \<Rightarrow> Done () (log (no_subscriber name) w)
      | Foreign \<Rightarrow> Raised type_error w
      | Present l \<Rightarrow>
          (case run_subs call args l [] w of
             Raised x w1 \<Rightarrow> Raised x w1
           | Done kept w1 \<Rightarrow> Done () (set_events b name kept w1)))"

definition stack_overflow :: val where
  "stack_overflow = VError ''RangeError: Maximum call stack size exceeded''"

text \<open>\<open>run n\<close> is \<^verbatim>\<open>run\<close> on a call stack with room for \<open>n\<close> nested dispatches; a
  dispatch with no room left throws the engine's \<^verbatim>\<open>RangeError\<close>.\<close>

primrec run :: "nat \<Rightarrow> busref \<Rightarrow> string \<Rightarrow> val list \<Rightarrow> world \<Rightarrow> (unit, world) result" where
  "run 0 = (\<lambda>b name args w. Raised stack_overflow w)"
| "run (Suc n) = App_run (run n)"

text \<open>\<^verbatim>\<open>Component.prototype.run\<close> dispatches on the bus the routing rule selects.\<close>

definition Component_run ::
  "(busref \<Rightarrow> string \<Rightarrow> val list \<Rightarrow> world \<Rightarrow> (unit, world) result) \<Rightarrow> nat \<Rightarrow> string \<Rightarrow> val list \<Rightarrow> world \<Rightarrow> (unit, world) result" where
  "Component_run call c name args w = call (route c name w) name args w"

definition add_action :: "nat \<Rightarrow> string \<Rightarrow> (val \<Rightarrow> val list \<Rightarrow> val) \<Rightarrow> nat option \<Rightarrow> world \<Rightarrow> (unit, world) result" where
  "add_action c t e n w =
     (let (r, w1) = (case n of None \<Rightarrow> new_options no_options w | Some r \<Rightarrow> (r, w))
      in Component_on c t (Action c t e r) (Some r) w1)"

text \<open>\<^verbatim>\<open>add_actions\<close> first spreads every key of the update map over its comma-separated,
  trimmed names into a fresh object (assigning \<^verbatim>\<open>__proto__\<close> creates no entry), then
  registers every entry of that object. The update map is given in the order in which
  \<^verbatim>\<open>Object.keys\<close> lists it; handlers declared through decorators are outside the model.\<close>

definition assign :: "string \<Rightarrow> action \<Rightarrow> (string \<times> action) list \<Rightarrow> (string \<times> action) list" where
  "assign name r n = (if name = ''__proto__'' then n else put name r n)"

fun spread :: "(string \<times> action) list \<Rightarrow> (string \<times> action) list \<Rightarrow> (string \<times> action) list" where
  "spread [] n = n"
| "spread (kr # es) n = spread es (fold (\<lambda>t. assign (trim t) (snd kr)) (split_commas (fst kr)) n)"

fun add_each :: "nat \<Rightarrow> (string \<times> action) list \<Rightarrow> world \<Rightarrow> (unit, world) result" where
  "add_each c [] w = Done () w"
| "add_each c (kr # rest) w =
     (case (case snd kr of
              Bare f \<Rightarrow> add_action c (fst kr) f None w
            | Tuple f n \<Rightarrow> add_action c (fst kr) f n w) of
        Raised x w1 \<Rightarrow> Raised x w1
      | Done _ w1 \<Rightarrow> add_each c rest w1)"

text \<open>\<^verbatim>\<open>Object.keys\<close> lists the names that are array indices first, in ascending
  order, and then the other names in the order in which they were created.\<close>

definition index_value :: "string \<Rightarrow> nat" where
  "index_value s = foldl (\<lambda>n c. 10 * n + (of_char c - 48)) 0 s"

definition is_index :: "string \<Rightarrow> bool" where
  "is_index s =
     (s \<noteq> [] \<and> list_all (\<lambda>c. c \<in> set ''0123456789'') s
      \<and> (length s = 1 \<or> hd s \<noteq> CHR ''0'') \<and> index_value s < 4294967295)"

definition Object_keys :: "(string \<times> 'a) list \<Rightarrow> (string \<times> 'a) list" where
  "Object_keys es =
     sort_key (\<lambda>kv. index_value (fst kv)) (filter (\<lambda>kv. is_index (fst kv)) es)
     @ filter (\<lambda>kv. \<not> is_index (fst kv)) es"

definition add_actions :: "nat \<Rightarrow> world \<Rightarrow> (unit, world) result" where
  "add_actions c w = add_each c (Object_keys (spread (c_update (w_comps w c)) [])) w"

definition empty_config :: config where
  "empty_config = \<lparr>cf_render = None, cf_history = None, cf_global_event = None\<rparr>"

definition pick :: "'a option \<Rightarrow> 'a option \<Rightarrow> 'a option" where
  "pick old new = (case new of None \<Rightarrow> old | Some x \<Rightarrow> Some x)"

text \<open>\<^verbatim>\<open>Object.assign(old, new)\<close> on the recognised fields.\<close>

definition merge_config :: "config \<Rightarrow> config \<Rightarrow> config" where
  "merge_config old new =
     \<lparr>cf_render = pick (cf_render old) (cf_render new),
      cf_history = pick (cf_history old) (cf_history new),
      cf_global_event = pick (cf_global_event old) (cf_global_event new)\<rparr>"

definition name_or :: "string option \<Rightarrow> string \<Rightarrow> string" where
  "name_or given dflt = (case given of None \<Rightarrow> dflt | Some s \<Rightarrow> if s = [] then dflt else s)"

definition bound :: "target \<Rightarrow> bool" where
  "bound el = (case el of TNode _ \<Rightarrow> True | TId s \<Rightarrow> s \<noteq> [] | _ \<Rightarrow> False)"

text \<open>
  \<^verbatim>\<open>mount(t, e)\<close>: \<^verbatim>\<open>console.assert(!this.element, "Component already mounted.")\<close>
  writes to the console when the component holds a truthy element and goes on
  (\<open>announce\<close>); the options are merged into the stored ones and the element and the
  two flags are stored (\<open>configure\<close>); the history handlers and the update handlers
  are registered, and the state is committed.
\<close>

definition announce :: "nat \<Rightarrow> world \<Rightarrow> world" where
  "announce c w =
     (if bound (c_element (w_comps w c)) then log (AssertionFailed ''Component already mounted.'') w else w)"

definition configure :: "nat \<Rightarrow> target \<Rightarrow> config option \<Rightarrow> world \<Rightarrow> world" where
  "configure c t e w =
     upd_comp c
       (\<lambda>k. let cfg = merge_config (case c_options k of None \<Rightarrow> empty_config | Some x \<Rightarrow> x)
                                    (case e of None \<Rightarrow> empty_config | Some x \<Rightarrow> x)
             in k\<lparr>c_options := Some cfg,
                   c_element := (if t = TUndefined then TNull else t),
                   c_global_event := (cf_global_event cfg = Some True),
                   c_enable_history := (case cf_history cfg of Some (HistoryOn p n) \<Rightarrow> True | _ \<Rightarrow> False)\<rparr>) w"

definition mount ::
  "(busref \<Rightarrow> string \<Rightarrow> val list \<Rightarrow> world \<Rightarrow> (unit, world) result) \<Rightarrow> nat \<Rightarrow> target \<Rightarrow> config option \<Rightarrow> world \<Rightarrow> (unit, world) result" where
  "mount call c t e w =
     (let w1 = configure c t e (announce c w);
          cfg = (case c_options (w_comps w1 c) of None \<Rightarrow> empty_config | Some x \<Rightarrow> x);
          prev = (case cf_history cfg of Some (HistoryOn p n) \<Rightarrow> name_or p ''history-prev'' | _ \<Rightarrow> ''history-prev'');
          next = (case cf_history cfg of Some (HistoryOn p n) \<Rightarrow> name_or n ''history-next'' | _ \<Rightarrow> ''history-next'')
      in case (if c_enable_history (w_comps w1 c)
               then (case Component_on c prev (HistoryPrev c) None w1 of
                       Raised x w2 \<Rightarrow> Raised x w2
                     | Done _ w2 \<Rightarrow> Component_on c next (HistoryNext c) None w2)
               else Done () w1) of
           Raised x w2 \<Rightarrow> Raised x w2
         | Done _ w2 \<Rightarrow>
             (case add_actions c w2 of
                Raised x w3 \<Rightarrow> Raised x w3
              | Done _ w3 \<Rightarrow>
                  (let w4 = (if c_state (w_comps w3 c) = VUndefined
                             then upd_comp c (\<lambda>k. k\<lparr>c_state := (if truthy (c_model k) then c_model k else VObj [])\<rparr>) w3
                             else w3)
                   in setState call c (c_state (w_comps w4 c))
                        (no_options\<lparr>o_render := Some (cf_render cfg = Some True), o_history := Some True\<rparr>) w4)))"

text \<open>The constructor \<^verbatim>\<open>new Component(state, view, update, options)\<close>.\<close>

definition new_component ::
  "val \<Rightarrow> (val \<Rightarrow> vtree) option \<Rightarrow> (string \<times> action) list \<Rightarrow> config option \<Rightarrow> world \<Rightarrow> nat \<times> world" where
  "new_component st v u opts w =
     (w_next_comp w,
      w\<lparr>w_comps := (w_comps w)(w_next_comp w :=
           \<lparr>c_state = st, c_view = v, c_update = u, c_options = opts, c_app = Map.empty,
            c_history = [], c_history_idx = - 1, c_element = TUndefined, c_global_event = False,
            c_enable_history = False, c_rendered = None, c_model = VUndefined\<rparr>),
        w_next_comp := Suc (w_next_comp w)\<rparr>)"

section \<open>Timers and promises\<close>





text \<open>
  \<^verbatim>\<open>t.then(function(t){n.setState(t,e)}).catch(function(t){throw console.error(t),t})\<close>:
  when the promise is fulfilled the commit runs with the value; when it is rejected, or
  when that commit throws, the reason is written to the console and thrown again, which
  rejects a promise nothing handles.
\<close>

datatype settlement = Fulfilled val | Rejected val

definition rethrow :: "val \<Rightarrow> world \<Rightarrow> world" where
  "rethrow x w = (log (ErrorLogged x) w)\<lparr>w_uncaught := w_uncaught w @ [x]\<rparr>"

definition react ::
  "(busref \<Rightarrow> string \<Rightarrow> val list \<Rightarrow> world \<Rightarrow> (unit, world) result) \<Rightarrow> settlement \<Rightarrow> reaction \<Rightarrow> world \<Rightarrow> world" where
  "react call out r w =
     (case out of
        Rejected x \<Rightarrow> rethrow x w
      | Fulfilled v \<Rightarrow>
          (case setState call (r_comp r) v (r_opts r) w of
             Done _ w1 \<Rightarrow> w1
           | Raised x w1 \<Rightarrow> rethrow x w1))"

definition settle ::
  "(busref \<Rightarrow> string \<Rightarrow> val list \<Rightarrow> world \<Rightarrow> (unit, world) result) \<Rightarrow> nat \<Rightarrow> settlement \<Rightarrow> world \<Rightarrow> world" where
  "settle call p out w =
     fold (react call out) (filter (\<lambda>r. r_promise r = p) (w_reactions w))
       (w\<lparr>w_reactions := filter (\<lambda>r. r_promise r \<noteq> p) (w_reactions w)\<rparr>)"

section \<open>Concrete states\<close>

definition blank_component :: component where
  "blank_component =
     \<lparr>c_state = VUndefined, c_view = None, c_update = [], c_options = None, c_app = Map.empty,
      c_history = [], c_history_idx = - 1, c_element = TUndefined, c_global_event = False,
      c_enable_history = False, c_rendered = None, c_model = VUndefined\<rparr>"

text \<open>A document with a \<^verbatim>\<open>body\<close> element (node 1) under the document node (node 0).\<close>

definition document0 :: dom where
  "document0 =
     \<lparr>d_nodes = (\<lambda>_. blank)(0 := blank\<lparr>n_name := ''#document'', n_type := 9, n_kids := [1]\<rparr>,
                              1 := blank\<lparr>n_name := ''BODY'', n_parent := Some 0\<rparr>),
      d_next = 2, d_keys = Map.empty, d_root = 0, d_parse = (\<lambda>_. [])\<rparr>"

text \<open>The world right after the bundle has been evaluated: the router module has
  subscribed an empty function to \<^verbatim>\<open>//\<close> and to \<^verbatim>\<open>#\<close>, and the entry module one to
  \<^verbatim>\<open>debug\<close>, all on the default bus.\<close>

definition loaded :: world where
  "loaded =
     \<lparr>w_shared = [''//'' \<mapsto> [\<lparr>s_fn = Noop, s_opts = 0\<rparr>], ''#'' \<mapsto> [\<lparr>s_fn = Noop, s_opts = 1\<rparr>],
                  ''debug'' \<mapsto> [\<lparr>s_fn = Noop, s_opts = 2\<rparr>]],
      w_comps = (\<lambda>_. blank_component), w_next_comp = 0,
      w_opts = (\<lambda>_. no_options), w_next_opts = 3,
      w_timers = [], w_next_timer = 1, w_now = 0, w_reactions = [],
      w_calls = [], w_console = [], w_uncaught = [], w_dom = document0\<rparr>"

text \<open>The default bus after \<^verbatim>\<open>on("x", f, {once: true})\<close> and one \<^verbatim>\<open>run("x")\<close>.\<close>

definition emptied :: world where
  "emptied =
     state_of (run 1 Shared ''x'' []
       (state_of (App_on Shared ''x'' (Callback 1 None) (Some 3)
          (snd (new_options (no_options\<lparr>o_once := True\<rparr>) loaded)))))"

section \<open>Relations between worlds\<close>

text \<open>\<open>steady w w'\<close>: from \<open>w\<close> to \<open>w'\<close> no options object has changed its
  \<^verbatim>\<open>once\<close> or \<^verbatim>\<open>delay\<close>, and every subscription without \<^verbatim>\<open>once\<close> is still in
  its list. \<open>same_bus w w'\<close>: the options store and both kinds of registry are the
  same.\<close>

definition steady :: "world \<Rightarrow> world \<Rightarrow> bool" where
  "steady w w' =
     ((\<forall>r. o_once (w_opts w' r) = o_once (w_opts w r) \<and> o_delay (w_opts w' r) = o_delay (w_opts w r))
      \<and> (\<forall>b name l. events_of b w name = Some l \<longrightarrow>
            (\<exists>l'. events_of b w' name = Some l'
                  \<and> (\<forall>s \<in> set l. \<not> o_once (w_opts w (s_opts s)) \<longrightarrow> s \<in> set l'))))"

definition same_bus :: "world \<Rightarrow> world \<Rightarrow> bool" where
  "same_bus w w' = (w_opts w' = w_opts w \<and> w_shared w' = w_shared w
                    \<and> (\<forall>c. c_app (w_comps w' c) = c_app (w_comps w c)))"

text \<open>Calling the handlers of a list one after the other, in the order of the list,
  each with the arguments of the dispatch, stopping at the first that throws.\<close>

fun invoke_all ::
  "(busref \<Rightarrow> string \<Rightarrow> val list \<Rightarrow> world \<Rightarrow> (unit, world) result) \<Rightarrow> val list \<Rightarrow> sub list \<Rightarrow> world \<Rightarrow> (unit, world) result" where
  "invoke_all call args [] w = Done () w"
| "invoke_all call args (s # ss) w =
     (case invoke call (s_fn s) args w of
        Raised x w1 \<Rightarrow> Raised x w1
      | Done _ w1 \<Rightarrow> invoke_all call args ss w1)"

definition returning :: "handler \<Rightarrow> bool" where
  "returning h = (case h of Callback k x \<Rightarrow> x = None | _ \<Rightarrow> False)"

definition callback_id :: "handler \<Rightarrow> nat" where
  "callback_id h = (case h of Callback k x \<Rightarrow> k | _ \<Rightarrow> 0)"

text \<open>A sequence of dispatches, each given by its bus, event name and arguments.\<close>

fun dispatches :: "nat \<Rightarrow> (busref \<times> string \<times> val list) list \<Rightarrow> world \<Rightarrow> world" where
  "dispatches n [] w = w"
| "dispatches n (d # ds) w = dispatches n ds (state_of (run n (fst d) (fst (snd d)) (snd (snd d)) w))"

text \<open>The default bus after three subscriptions to \<^verbatim>\<open>tick\<close>, none with options.\<close>

definition three_subscribers :: world where
  "three_subscribers =
     state_of (App_on Shared ''tick'' (Callback 3 None) None
       (state_of (App_on Shared ''tick'' (Callback 2 None) None
          (state_of (App_on Shared ''tick'' (Callback 1 None) None loaded)))))"

text \<open>A handler is \<open>plain\<close> when it is a function without effect or an application
  callback that returns; a world is \<open>quiet\<close> when every listener of the \<^verbatim>\<open>debug\<close>
  event, which the component code dispatches on the shared bus before every commit and
  every render, is plain.\<close>

definition plain :: "handler \<Rightarrow> bool" where
  "plain h = (case h of Noop \<Rightarrow> True | Callback k x \<Rightarrow> x = None | _ \<Rightarrow> False)"

definition quiet :: "world \<Rightarrow> bool" where
  "quiet w = (case w_shared w ''debug'' of None \<Rightarrow> True | Some l \<Rightarrow> list_all (\<lambda>s. plain (s_fn s)) l)"

text \<open>A counter component: state \<open>0\<close>, the update \<^verbatim>\<open>{'+1': s => s + 1}\<close>, a view
  that shows the state in a heading; mounted on the \<^verbatim>\<open>body\<close> element with
  \<^verbatim>\<open>{render: true, history: true}\<close>, then incremented twice, then sent \<^verbatim>\<open>history-prev\<close>
  twice and a third time.\<close>

definition increment :: "val \<Rightarrow> val list \<Rightarrow> val" where
  "increment s args = (case s of VNum i \<Rightarrow> VNum (i + 1) | _ \<Rightarrow> s)"

definition counter_view :: "val \<Rightarrow> vtree" where
  "counter_view s = VSingle (VElem ''h1'' [] [VText (case s of VNum i \<Rightarrow> show_int i | _ \<Rightarrow> [])])"

definition history_config :: config where
  "history_config = \<lparr>cf_render = Some True, cf_history = Some (HistoryOn None None), cf_global_event = None\<rparr>"

definition counter_mounted :: world where
  "counter_mounted =
     state_of (mount (run 2) 0 (TNode 1) (Some history_config)
       (snd (new_component (VNum 0) (Some counter_view) [(''+1'', Bare increment)] None loaded)))"

definition counted_to_two :: world where
  "counted_to_two =
     state_of (Component_run (run 3) 0 ''+1'' []
       (state_of (Component_run (run 3) 0 ''+1'' [] counter_mounted)))"

definition back_twice :: world where
  "back_twice =
     state_of (Component_run (run 3) 0 ''history-prev'' []
       (state_of (Component_run (run 3) 0 ''history-prev'' [] counted_to_two)))"

definition back_thrice :: world where
  "back_thrice = state_of (Component_run (run 3) 0 ''history-prev'' [] back_twice)"

text \<open>A component whose update \<^verbatim>\<open>load\<close> returns a pending promise (identity 7);
  the event is dispatched and the promise is then rejected.\<close>

definition start_loading :: "val \<Rightarrow> val list \<Rightarrow> val" where
  "start_loading s args = VPromise 7"

definition loader_mounted :: world where
  "loader_mounted =
     state_of (mount (run 2) 0 (TNode 1) (Some \<lparr>cf_render = Some True, cf_history = None, cf_global_event = None\<rparr>)
       (snd (new_component (VNum 0) (Some counter_view) [(''load'', Bare start_loading)] None loaded)))"

definition load_rejected :: world where
  "load_rejected =
     settle (run 2) 7 (Rejected (VError ''offline''))
       (state_of (Component_run (run 3) 0 ''load'' [] loader_mounted))"

text \<open>The mounted counter component, mounted a second time.\<close>

definition mounted_again :: "(unit, world) result" where
  "mounted_again = mount (run 2) 0 (TNode 1) (Some history_config) counter_mounted"

section \<open>Keyed children\<close>




text \<open>Two host trees with the same allocation counter and registry, and the same
  parent, name, type and key at every node.\<close>

definition same_frame :: "dom \<Rightarrow> dom \<Rightarrow> bool" where
  "same_frame st st' =
     (d_next st' = d_next st \<and> d_keys st' = d_keys st
      \<and> (\<forall>x. n_parent (node st' x) = n_parent (node st x)
             \<and> n_name (node st' x) = n_name (node st x)
             \<and> n_type (node st' x) = n_type (node st x)
             \<and> map_of (n_attrs (node st' x)) ''key'' = map_of (n_attrs (node st x)) ''key''))"

text \<open>A list item with a key; the body after three keyed items have been rendered
  into it; and the body after two lists have been rendered into it, one holding the
  item \<^verbatim>\<open>a\<close> and the other the item \<^verbatim>\<open>z\<close>.\<close>

definition item :: "string \<Rightarrow> vnode" where
  "item k = VElem ''li'' [(''key'', PStr k)] []"


definition two_lists :: dom where
  "two_lists =
     state_of (updateChildren 1 [VElem ''ul'' [] [item ''a''], VElem ''ul'' [] [item ''z'']] document0)"

section \<open>Delayed subscriptions\<close>

text \<open>The calls of the application callback \<open>k\<close>, as the lists of arguments it was
  called with, in order.\<close>

definition calls_back :: "nat \<Rightarrow> handler \<Rightarrow> bool" where
  "calls_back k h = (case h of Callback k' x \<Rightarrow> k' = k | _ \<Rightarrow> False)"

definition calls_of :: "nat \<Rightarrow> world \<Rightarrow> val list list" where
  "calls_of k w = map snd (filter (\<lambda>c. fst c = k) (w_calls w))"

text \<open>A subscription beside the one under study: its function is without effect or
  an application callback other than \<open>k\<close> that returns, and its options have neither
  \<^verbatim>\<open>delay\<close> nor \<^verbatim>\<open>once\<close>.\<close>

definition bystander :: "nat \<Rightarrow> world \<Rightarrow> sub \<Rightarrow> bool" where
  "bystander k w s =
     (plain (s_fn s) \<and> \<not> calls_back k (s_fn s)
      \<and> o_delay (w_opts w (s_opts s)) = 0 \<and> \<not> o_once (w_opts w (s_opts s)))"

text \<open>\<open>waiting s a due w\<close>: the only pending timer is the one \<^verbatim>\<open>delay\<close> started for the
  subscription \<open>s\<close> with the arguments \<open>a\<close>, due at \<open>due\<close>, and the options object of
  \<open>s\<close> holds its handle. \<open>debounced\<close>: the list of the event is \<open>pre @ s # post\<close>, the
  subscriptions around \<open>s\<close> are bystanders, and \<open>s\<close> has the delay \<open>d\<close> and no \<^verbatim>\<open>once\<close>.\<close>

definition waiting :: "sub \<Rightarrow> val list \<Rightarrow> nat \<Rightarrow> world \<Rightarrow> bool" where
  "waiting s a due w =
     (case w_timers w of
        [] \<Rightarrow> False
      | tm # tms \<Rightarrow>
          tms = [] \<and> t_fn tm = s_fn s \<and> t_args tm = a \<and> t_due tm = due \<and> t_opts tm = s_opts s
          \<and> o_timer (w_opts w (s_opts s)) = Some (t_id tm))"

definition debounced :: "busref \<Rightarrow> string \<Rightarrow> sub list \<Rightarrow> sub \<Rightarrow> sub list \<Rightarrow> nat \<Rightarrow> nat \<Rightarrow> world \<Rightarrow> bool" where
  "debounced b name pre s post k d w =
     (events_of b w name = Some (pre @ s # post) \<and> list_all (bystander k w) (pre @ post)
      \<and> o_delay (w_opts w (s_opts s)) = d \<and> \<not> o_once (w_opts w (s_opts s)))"




section \<open>Properties\<close>

subsection \<open>Basic facts\<close>

lemma events_of_simps [simp]:
  "events_of Shared w = w_shared w"
  "events_of (Private c) w = c_app (w_comps w c)"
  by (simp_all add: events_of_def)

lemma inherited_toString [simp]: "inherited ''toString''"
  by (simp add: inherited_def object_prototype_names_def)

lemma not_inherited_examples [simp]:
  "\<not> inherited ''x''" "\<not> inherited ''debug''" "\<not> inherited ''nothing''"
  by (simp_all add: inherited_def object_prototype_names_def)

lemma set_events_same [simp]: "events_of b w name = Some l \<Longrightarrow> set_events b name l w = w"
  by (cases b) (simp_all add: set_events_def upd_comp_def map_upd_triv)

lemma run_absent:
  "events_of b w name = None \<Longrightarrow> \<not> inherited name \<Longrightarrow>
   run (Suc n) b name args w = Done () (log (no_subscriber name) w)"
  by (simp add: App_run_def slot_of_def)

lemma run_empty_list: "events_of b w name = Some [] \<Longrightarrow> run (Suc n) b name args w = Done () w"
  by (simp add: App_run_def slot_of_def)

lemma run_inherited:
  "events_of b w name = None \<Longrightarrow> inherited name \<Longrightarrow> run (Suc n) b name args w = Raised type_error w"
  by (simp add: App_run_def slot_of_def)

lemma emptied_list: "w_shared emptied ''x'' = Some []"
  by (simp add: emptied_def App_run_def slot_of_def loaded_def App_on_def new_options_def
      set_events_def state_of_def invoke_def called_def no_options_def)

lemma emptied_console: "w_console emptied = []"
  by (simp add: emptied_def App_run_def slot_of_def loaded_def App_on_def new_options_def
      set_events_def state_of_def invoke_def called_def no_options_def)

subsection \<open>What a dispatch preserves\<close>

lemma setState_commit: "committable t \<Longrightarrow> setState call c t e w = commit call c t e w"
  by (cases t) (simp_all add: setState_def committable_def)

lemma setState_skip: "t = VNull \<or> t = VUndefined \<Longrightarrow> setState call c t e w = Done () w"
  by (auto simp: setState_def)

lemma setState_cases:
  "committable t \<or> t = VNull \<or> t = VUndefined \<or> (\<exists>p. t = VPromise p)"
  by (cases t) (simp_all add: committable_def)

lemma steady_refl [simp]: "steady w w"
  by (auto simp: steady_def)

lemma steady_trans: "steady w w1 \<Longrightarrow> steady w1 w2 \<Longrightarrow> steady w w2"
  unfolding steady_def by (metis)

lemma same_bus_steady: "same_bus w w' \<Longrightarrow> steady w w'"
  unfolding steady_def same_bus_def
  by (auto simp: events_of_def split: busref.splits)

lemma same_bus_refl [simp]: "same_bus w w"
  by (simp add: same_bus_def)

lemma same_bus_trans: "same_bus w w1 \<Longrightarrow> same_bus w1 w2 \<Longrightarrow> same_bus w w2"
  by (simp add: same_bus_def)

lemma steady_same_bus: "steady w w1 \<Longrightarrow> same_bus w1 w2 \<Longrightarrow> steady w w2"
  using same_bus_steady steady_trans by blast

lemma same_bus_paint: "same_bus w (state_of (paint c e w))"
  by (simp add: paint_def state_of_def same_bus_def called_def
      split: option.splits result.splits)

lemma same_bus_tail: "same_bus w (commit_callback c e (record_history c t e w))"
  by (simp add: commit_callback_def record_history_def same_bus_def called_def upd_comp_def
      split: option.splits)

lemma same_bus_state: "same_bus w (upd_comp c (\<lambda>k. k\<lparr>c_state := t\<rparr>) w)"
  by (simp add: same_bus_def upd_comp_def)

lemma steady_delay: "steady w (App_delay fn args r w)"
  by (auto simp: steady_def App_delay_def upd_opts_def clearTimeout_def Let_def events_of_def
      split: option.splits busref.splits)

lemma steady_renderState:
  assumes "\<And>b name args w. steady w (state_of (call b name args w))"
  shows "steady w (state_of (renderState call c t w))"
proof (cases "c_view (w_comps w c)")
  case None
  then show ?thesis by (simp add: renderState_def state_of_def)
next
  case (Some v)
  let ?r = "call Shared ''debug'' [VObj [(''component'', VRef c), (''state'', t), (''vdom'', vdom_or_note (v t))]] w"
  have s1: "steady w (state_of ?r)" by (rule assms)
  show ?thesis
  proof (cases ?r)
    case (Raised x w1)
    with s1 Some show ?thesis by (simp add: renderState_def state_of_def)
  next
    case (Done u w1)
    with s1 have s: "steady w w1" by (simp add: state_of_def)
    have "steady w (state_of (paint c (v t) w1))"
      using s same_bus_paint by (rule steady_same_bus)
    then show ?thesis
      using Some Done by (simp add: renderState_def)
  qed
qed

lemma steady_commit:
  assumes "\<And>b name args w. steady w (state_of (call b name args w))"
  shows "steady w (state_of (commit call c t e w))"
proof -
  let ?w1 = "upd_comp c (\<lambda>k. k\<lparr>c_state := t\<rparr>) w"
  let ?r = "if o_render e \<noteq> Some False then renderState call c t ?w1 else Done () ?w1"
  have u: "steady w ?w1"
    by (rule same_bus_steady) (rule same_bus_state)
  have "steady ?w1 (state_of ?r)"
    using steady_renderState [of call ?w1 c t, OF assms] by (simp add: state_of_def)
  with u have s: "steady w (state_of ?r)"
    by (rule steady_trans)
  show ?thesis
  proof (cases ?r)
    case (Raised x w2)
    with s show ?thesis by (simp add: commit_def Let_def state_of_def)
  next
    case (Done u w2)
    with s have "steady w w2" by (simp add: state_of_def)
    then have "steady w (commit_callback c e (record_history c t e w2))"
      using same_bus_tail by (rule steady_same_bus)
    with Done show ?thesis by (simp add: commit_def Let_def state_of_def)
  qed
qed

lemma steady_setState:
  assumes "\<And>b name args w. steady w (state_of (call b name args w))"
  shows "steady w (state_of (setState call c t e w))"
  using setState_cases [of t]
proof (elim disjE exE)
  assume "committable t"
  then show ?thesis
    using steady_commit [of call w c t e, OF assms] by (simp add: setState_commit)
next
  fix p assume "t = VPromise p"
  then show ?thesis
    by (simp add: setState_def state_of_def same_bus_steady same_bus_def)
qed (simp_all add: setState_def state_of_def)

lemma steady_history_prev:
  assumes "\<And>b name args w. steady w (state_of (call b name args w))"
  shows "steady w (state_of (history_prev call c w))"
proof -
  let ?w1 = "upd_comp c (\<lambda>k. k\<lparr>c_history_idx := c_history_idx k - 1\<rparr>) w"
  have u: "steady w ?w1"
    by (rule same_bus_steady) (simp add: same_bus_def upd_comp_def)
  have v: "steady ?w1 (upd_comp c (\<lambda>k. k\<lparr>c_history_idx := 0\<rparr>) ?w1)"
    by (rule same_bus_steady) (simp add: same_bus_def upd_comp_def)
  show ?thesis
    unfolding history_prev_def Let_def
    using steady_trans [OF u steady_setState [of call ?w1, OF assms]] steady_trans [OF u v]
    by (simp add: state_of_def)
qed

lemma steady_history_next:
  assumes "\<And>b name args w. steady w (state_of (call b name args w))"
  shows "steady w (state_of (history_next call c w))"
proof -
  let ?w1 = "upd_comp c (\<lambda>k. k\<lparr>c_history_idx := c_history_idx k + 1\<rparr>) w"
  have u: "steady w ?w1"
    by (rule same_bus_steady) (simp add: same_bus_def upd_comp_def)
  have v: "steady ?w1 (upd_comp c (\<lambda>k. k\<lparr>c_history_idx := int (length (c_history k)) - 1\<rparr>) ?w1)"
    by (rule same_bus_steady) (simp add: same_bus_def upd_comp_def)
  show ?thesis
    unfolding history_next_def Let_def
    using steady_trans [OF u steady_setState [of call ?w1, OF assms]] steady_trans [OF u v]
    by (simp add: state_of_def)
qed

lemma steady_invoke:
  assumes "\<And>b name args w. steady w (state_of (call b name args w))"
  shows "steady w (state_of (invoke call h args w))"
proof (cases h)
  case Noop
  then show ?thesis by (simp add: invoke_def state_of_def)
next
  case (Callback k x)
  then show ?thesis
    by (cases x) (simp_all add: invoke_def state_of_def same_bus_steady same_bus_def called_def)
next
  case (Action c name f r)
  let ?r = "call Shared ''debug''
      [VObj [(''component'', VRef c), (''event'', VStr name), (''e'', VArr args),
             (''state'', c_state (w_comps w c)), (''newState'', f (c_state (w_comps w c)) args),
             (''options'', VRef r)]] w"
  have s: "steady w (state_of ?r)" by (rule assms)
  show ?thesis
  proof (cases ?r)
    case (Raised x w1)
    with s Action show ?thesis by (simp add: invoke_def Let_def state_of_def)
  next
    case (Done u w1)
    with s have "steady w w1" by (simp add: state_of_def)
    then have "steady w (state_of (setState call c (f (c_state (w_comps w c)) args) (w_opts w1 r) w1))"
      using steady_setState [of call w1, OF assms] by (rule steady_trans)
    with Done Action show ?thesis by (simp add: invoke_def Let_def)
  qed
next
  case (HistoryPrev c)
  then show ?thesis using steady_history_prev [of call w c, OF assms] by (simp add: invoke_def)
next
  case (HistoryNext c)
  then show ?thesis using steady_history_next [of call w c, OF assms] by (simp add: invoke_def)
qed


lemma events_of_set_events:
  "events_of b' (set_events b name l w) name' =
     (if b' = b \<and> name' = name then Some l else events_of b' w name')"
  by (cases b; cases b') (auto simp: set_events_def upd_comp_def)

lemma w_opts_set_events [simp]: "w_opts (set_events b name l w) = w_opts w"
  by (cases b) (simp_all add: set_events_def upd_comp_def)

lemma steady_flags:
  "steady w w' \<Longrightarrow> o_once (w_opts w' r) = o_once (w_opts w r) \<and> o_delay (w_opts w' r) = o_delay (w_opts w r)"
  by (simp add: steady_def)

lemma steady_run_subs:
  assumes c: "\<And>b name args w. steady w (state_of (call b name args w))"
  shows "steady w (state_of (run_subs call args l kept w))
         \<and> (\<forall>kept' w'. run_subs call args l kept w = Done kept' w' \<longrightarrow>
               set kept \<subseteq> set kept' \<and> (\<forall>s \<in> set l. \<not> o_once (w_opts w (s_opts s)) \<longrightarrow> s \<in> set kept'))"
proof (induction l arbitrary: kept w)
  case Nil
  show ?case by (simp add: state_of_def)
next
  case (Cons s ss)
  let ?r = "if o_delay (w_opts w (s_opts s)) \<noteq> 0
            then Done () (App_delay (s_fn s) args (s_opts s) w)
            else invoke call (s_fn s) args w"
  have s1: "steady w (state_of ?r)"
    using steady_invoke [of call w "s_fn s" args, OF c] steady_delay
    by (simp add: state_of_def)
  show ?case
  proof (cases ?r)
    case (Raised x w1)
    with s1 show ?thesis by (simp add: state_of_def)
  next
    case (Done u w1)
    with s1 have sw: "steady w w1" by (simp add: state_of_def)
    let ?k = "if o_once (w_opts w1 (s_opts s)) then kept else kept @ [s]"
    have eq: "run_subs call args (s # ss) kept w = run_subs call args ss ?k w1"
      using Done by simp
    have ih: "steady w1 (state_of (run_subs call args ss ?k w1))
         \<and> (\<forall>kept' w'. run_subs call args ss ?k w1 = Done kept' w' \<longrightarrow>
               set ?k \<subseteq> set kept' \<and> (\<forall>s \<in> set ss. \<not> o_once (w_opts w1 (s_opts s)) \<longrightarrow> s \<in> set kept'))"
      by (rule Cons.IH)
    have fl: "\<And>r. o_once (w_opts w1 r) = o_once (w_opts w r)"
      using sw by (simp add: steady_def)
    show ?thesis
      unfolding eq using ih sw fl
      by (auto intro: steady_trans)
  qed
qed

lemma steady_App_run:
  assumes c: "\<And>b name args w. steady w (state_of (call b name args w))"
  shows "steady w (state_of (App_run call b name args w))"
proof (cases "slot_of (events_of b w) name")
  case Absent
  then show ?thesis
    by (simp add: App_run_def state_of_def same_bus_steady same_bus_def log_def)
next
  case Foreign
  then show ?thesis by (simp add: App_run_def state_of_def)
next
  case (Present l)
  then have ev: "events_of b w name = Some l"
    by (simp add: slot_of_def split: option.splits if_splits)
  note rs = steady_run_subs [of call w args l "[]", OF c]
  show ?thesis
  proof (cases "run_subs call args l [] w")
    case (Raised x w1)
    with rs Present show ?thesis by (simp add: App_run_def state_of_def)
  next
    case (Done kept w1)
    with rs have sw: "steady w w1"
      and kp: "\<forall>s \<in> set l. \<not> o_once (w_opts w (s_opts s)) \<longrightarrow> s \<in> set kept"
      by (simp_all add: state_of_def)
    have "steady w (set_events b name kept w1)"
      unfolding steady_def
    proof (intro conjI allI impI)
      fix r show "o_once (w_opts (set_events b name kept w1) r) = o_once (w_opts w r)"
        using sw by (simp add: steady_def)
      show "o_delay (w_opts (set_events b name kept w1) r) = o_delay (w_opts w r)"
        using sw by (simp add: steady_def)
    next
      fix b' name' l'
      assume a: "events_of b' w name' = Some l'"
      show "\<exists>l''. events_of b' (set_events b name kept w1) name' = Some l'' \<and>
                 (\<forall>s\<in>set l'. \<not> o_once (w_opts w (s_opts s)) \<longrightarrow> s \<in> set l'')"
      proof (cases "b' = b \<and> name' = name")
        case True
        with a ev have "l' = l" by simp
        with True kp show ?thesis by (simp add: events_of_set_events)
      next
        case False
        then have "events_of b' (set_events b name kept w1) name' = events_of b' w1 name'"
          by (auto simp: events_of_set_events)
        then show ?thesis using a sw
          by (simp add: steady_def)
      qed
    qed
    with Done Present show ?thesis by (simp add: App_run_def state_of_def)
  qed
qed

lemma steady_run: "steady w (state_of (run n b name args w))"
proof (induction n arbitrary: b name args w)
  case 0
  show ?case by (simp add: state_of_def)
next
  case (Suc n)
  show ?case
    using steady_App_run [of "run n" w b name args] Suc by simp
qed

subsection \<open>The event bus\<close>

lemma run_subs_plain_flags:
  assumes c: "\<And>b name args w. steady w (state_of (call b name args w))"
    and f: "\<forall>s \<in> set l. \<not> o_once (w_opts w (s_opts s)) \<and> o_delay (w_opts w (s_opts s)) = 0"
  shows "run_subs call args l kept w =
           (case invoke_all call args l w of
              Raised x w' \<Rightarrow> Raised x w'
            | Done u w' \<Rightarrow> Done (kept @ l) w')"
  using f
proof (induction l arbitrary: kept w)
  case Nil
  show ?case by simp
next
  case (Cons s ss)
  show ?case
  proof (cases "invoke call (s_fn s) args w")
    case (Raised x w1)
    with Cons.prems show ?thesis by simp
  next
    case (Done u w1)
    have "steady w (state_of (invoke call (s_fn s) args w))"
      using c by (rule steady_invoke)
    with Done have sw: "steady w w1" by (simp add: state_of_def)
    then have fl: "\<And>r. o_once (w_opts w1 r) = o_once (w_opts w r) \<and> o_delay (w_opts w1 r) = o_delay (w_opts w r)"
      by (simp add: steady_def)
    have "\<forall>s \<in> set ss. \<not> o_once (w_opts w1 (s_opts s)) \<and> o_delay (w_opts w1 (s_opts s)) = 0"
      using Cons.prems fl by simp
    then have "run_subs call args ss (kept @ [s]) w1 =
           (case invoke_all call args ss w1 of
              Raised x w' \<Rightarrow> Raised x w'
            | Done u w' \<Rightarrow> Done ((kept @ [s]) @ ss) w')"
      by (rule Cons.IH)
    then have "run_subs call args ss (kept @ [s]) w1 =
           (case invoke_all call args ss w1 of
              Raised x w' \<Rightarrow> Raised x w'
            | Done u w' \<Rightarrow> Done (kept @ s # ss) w')"
      by (simp split: result.splits)
    with Done Cons.prems fl show ?thesis by simp
  qed
qed

lemma run_ordered:
  assumes ev: "events_of b w name = Some l"
    and f: "\<forall>s \<in> set l. \<not> o_once (w_opts w (s_opts s)) \<and> o_delay (w_opts w (s_opts s)) = 0"
  shows "run (Suc n) b name args w =
           (case invoke_all (run n) args l w of
              Raised x w' \<Rightarrow> Raised x w'
            | Done u w' \<Rightarrow> Done () (set_events b name l w'))"
proof -
  have "run_subs (run n) args l [] w =
           (case invoke_all (run n) args l w of
              Raised x w' \<Rightarrow> Raised x w'
            | Done u w' \<Rightarrow> Done ([] @ l) w')"
    using steady_run f by (rule run_subs_plain_flags)
  then show ?thesis
    using ev by (simp add: App_run_def slot_of_def split: result.splits)
qed

lemma invoke_all_callbacks:
  "\<forall>s \<in> set l. returning (s_fn s) \<Longrightarrow>
   invoke_all call args l w = Done () (w\<lparr>w_calls := w_calls w @ map (\<lambda>s. (callback_id (s_fn s), args)) l\<rparr>)"
proof (induction l arbitrary: w)
  case Nil
  show ?case by simp
next
  case (Cons s ss)
  from Cons.prems obtain k where k: "s_fn s = Callback k None"
    by (cases "s_fn s") (auto simp: returning_def)
  have "invoke call (s_fn s) args w = Done () (called k args w)"
    using k by (simp add: invoke_def)
  moreover have "invoke_all call args ss (called k args w)
      = Done () ((called k args w)\<lparr>w_calls := w_calls (called k args w) @ map (\<lambda>s. (callback_id (s_fn s), args)) ss\<rparr>)"
    using Cons.prems by (intro Cons.IH) simp
  ultimately show ?case
    using k by (simp add: called_def callback_id_def)
qed

lemma run_callbacks:
  assumes ev: "events_of b w name = Some l"
    and f: "\<forall>s \<in> set l. \<not> o_once (w_opts w (s_opts s)) \<and> o_delay (w_opts w (s_opts s)) = 0"
    and r: "\<forall>s \<in> set l. returning (s_fn s)"
  shows "run (Suc n) b name args w =
           Done () (w\<lparr>w_calls := w_calls w @ map (\<lambda>s. (callback_id (s_fn s), args)) l\<rparr>)"
proof -
  let ?w' = "w\<lparr>w_calls := w_calls w @ map (\<lambda>s. (callback_id (s_fn s), args)) l\<rparr>"
  have "events_of b ?w' name = Some l"
    using ev by (cases b) simp_all
  then have "set_events b name l ?w' = ?w'"
    by (rule set_events_same)
  then show ?thesis
    using run_ordered [OF ev f, of n args] invoke_all_callbacks [OF r, of "run n" args w]
    by (simp del: run.simps)
qed

text \<open>
  C2. Let an event have the subscriptions \<open>l\<close>, none with the \<^verbatim>\<open>once\<close> flag or a
  delay. A dispatch of the event calls the handlers of \<open>l\<close> one after the other in
  registration order, inside the dispatch. When it returns, the event's list is \<open>l\<close>
  again (so it has the same length) and still no subscription has \<^verbatim>\<open>once\<close> or a
  delay, so the same holds for every further dispatch. When the handlers are
  application callbacks that return, the dispatch returns and has recorded exactly
  their calls, in registration order, each with the arguments of the dispatch.
\<close>

theorem dispatch_in_registration_order:
  assumes "events_of b w name = Some l"
    and "\<forall>s \<in> set l. \<not> o_once (w_opts w (s_opts s)) \<and> o_delay (w_opts w (s_opts s)) = 0"
  shows "run (Suc n) b name args w =
           (case invoke_all (run n) args l w of
              Raised x w' \<Rightarrow> Raised x w'
            | Done u w' \<Rightarrow> Done () (set_events b name l w'))
         \<and> (\<forall>w'. run (Suc n) b name args w = Done () w' \<longrightarrow>
               events_of b w' name = Some l
               \<and> (\<forall>s \<in> set l. \<not> o_once (w_opts w' (s_opts s)) \<and> o_delay (w_opts w' (s_opts s)) = 0))
         \<and> ((\<forall>s \<in> set l. returning (s_fn s)) \<longrightarrow>
               run (Suc n) b name args w =
                 Done () (w\<lparr>w_calls := w_calls w @ map (\<lambda>s. (callback_id (s_fn s), args)) l\<rparr>))"
proof (intro conjI allI impI)
  show eq: "run (Suc n) b name args w =
           (case invoke_all (run n) args l w of
              Raised x w' \<Rightarrow> Raised x w'
            | Done u w' \<Rightarrow> Done () (set_events b name l w'))"
    using assms by (rule run_ordered)
  fix w' assume d: "run (Suc n) b name args w = Done () w'"
  then obtain w1 where "w' = set_events b name l w1"
    unfolding eq by (auto split: result.splits)
  then show "events_of b w' name = Some l"
    by (simp add: events_of_set_events)
  have "steady w (state_of (run (Suc n) b name args w))"
    by (rule steady_run)
  with d have "steady w w'"
    by (simp add: state_of_def)
  with assms(2) show "\<forall>s \<in> set l. \<not> o_once (w_opts w' (s_opts s)) \<and> o_delay (w_opts w' (s_opts s)) = 0"
    by (simp add: steady_def)
next
  assume "\<forall>s \<in> set l. returning (s_fn s)"
  with assms show "run (Suc n) b name args w =
                 Done () (w\<lparr>w_calls := w_calls w @ map (\<lambda>s. (callback_id (s_fn s), args)) l\<rparr>)"
    by (rule run_callbacks)
qed

lemma three_list:
  "w_shared three_subscribers ''tick'' =
     Some [\<lparr>s_fn = Callback 1 None, s_opts = 3\<rparr>, \<lparr>s_fn = Callback 2 None, s_opts = 4\<rparr>,
           \<lparr>s_fn = Callback 3 None, s_opts = 5\<rparr>]"
  by (simp add: three_subscribers_def loaded_def App_on_def new_options_def slot_of_def
      set_events_def state_of_def inherited_def object_prototype_names_def)

lemma three_opts: "w_opts three_subscribers r = no_options"
  by (simp add: three_subscribers_def loaded_def App_on_def new_options_def slot_of_def
      set_events_def state_of_def inherited_def object_prototype_names_def)

lemma three_calls: "w_calls three_subscribers = []"
  by (simp add: three_subscribers_def loaded_def App_on_def new_options_def slot_of_def
      set_events_def state_of_def inherited_def object_prototype_names_def)

theorem dispatch_in_registration_order_witness:
  "run (Suc 0) Shared ''tick'' [VNum 7] three_subscribers =
     Done () (three_subscribers\<lparr>w_calls := [(1, [VNum 7]), (2, [VNum 7]), (3, [VNum 7])]\<rparr>)
   \<and> length (the (events_of Shared (state_of (run (Suc 0) Shared ''tick'' [VNum 7] three_subscribers)) ''tick'')) = 3"
proof -
  let ?l = "[\<lparr>s_fn = Callback 1 None, s_opts = 3\<rparr>, \<lparr>s_fn = Callback 2 None, s_opts = 4\<rparr>,
           \<lparr>s_fn = Callback 3 None, s_opts = 5\<rparr>]"
  have a: "events_of Shared three_subscribers ''tick'' = Some ?l"
    by (simp add: three_list)
  have b: "\<forall>s \<in> set ?l. \<not> o_once (w_opts three_subscribers (s_opts s))
             \<and> o_delay (w_opts three_subscribers (s_opts s)) = 0"
    by (simp add: three_opts no_options_def)
  have c: "\<forall>s \<in> set ?l. returning (s_fn s)"
    by (simp add: returning_def)
  note t = dispatch_in_registration_order [OF a b, of 0 "[VNum 7]"]
  from t c have "run (Suc 0) Shared ''tick'' [VNum 7] three_subscribers =
      Done () (three_subscribers\<lparr>w_calls := w_calls three_subscribers
                 @ map (\<lambda>s. (callback_id (s_fn s), [VNum 7])) ?l\<rparr>)"
    by blast
  then show ?thesis
    by (simp add: callback_id_def three_calls state_of_def three_list del: run.simps)
qed

text \<open>
  C4. Dispatching an event with no current subscription should write the
  diagnostic \<^verbatim>\<open>No subscriber for event: <name>\<close> and change nothing. The code tests
  the registry entry (\<^verbatim>\<open>console.assert(!!o, ...)\<close>), not the number of subscriptions,
  and misses the event all of whose subscriptions have been removed: after
  \<^verbatim>\<open>on("x", f, {once: true})\<close> and one dispatch the list of \<^verbatim>\<open>x\<close> is the empty array,
  which is truthy, and a further dispatch of \<^verbatim>\<open>x\<close> returns with the console still
  empty.
\<close>

theorem dispatch_emptied_list_is_silent:
  "events_of Shared emptied ''x'' = Some []
   \<and> w_console emptied = []
   \<and> run (Suc 0) Shared ''x'' [] emptied = Done () emptied
   \<and> w_console (state_of (run (Suc 0) Shared ''x'' [] emptied)) = []"
  by (simp add: emptied_list emptied_console run_empty_list state_of_def del: run.simps)

text \<open>The same test misses the names every object inherits: on the bus as loaded
  nothing is subscribed to \<^verbatim>\<open>toString\<close>, yet \<^verbatim>\<open>run("toString")\<close> finds the inherited
  function, passes the assertion and throws when it calls \<^verbatim>\<open>filter\<close> on it.\<close>

lemma dispatch_inherited_name_throws:
  "events_of Shared loaded ''toString'' = None
   \<and> run (Suc n) Shared ''toString'' args loaded = Raised type_error loaded"
proof -
  have a: "events_of Shared loaded ''toString'' = None"
    by (simp add: loaded_def)
  from a have "run (Suc n) Shared ''toString'' args loaded = Raised type_error loaded"
    by (rule run_inherited) simp
  with a show ?thesis by blast
qed

text \<open>Where the registry has no entry for the name, and the name is not an inherited
  one, the dispatch does what is intended: it writes the diagnostic and returns with
  nothing else changed.\<close>

lemma dispatch_unregistered_name:
  "events_of Shared loaded ''nothing'' = None
   \<and> run (Suc n) Shared ''nothing'' args loaded
       = Done () (log (no_subscriber ''nothing'') loaded)"
proof -
  have a: "events_of Shared loaded ''nothing'' = None"
    by (simp add: loaded_def)
  have b: "\<not> inherited ''nothing''"
    by (simp add: inherited_def object_prototype_names_def)
  from a b have "run (Suc n) Shared ''nothing'' args loaded
       = Done () (log (no_subscriber ''nothing'') loaded)"
    by (rule run_absent)
  with a show ?thesis by blast
qed

subsection \<open>The component state machine\<close>

text \<open>
  C5. Registration and outward dispatch of a component go to the shared bus whenever
  the event name begins with \<^verbatim>\<open>#\<close> or \<^verbatim>\<open>/\<close>, whatever the component's settings;
  for any other name they go to the shared bus if the component's \<^verbatim>\<open>global_event\<close>
  flag is set and to the component's private bus if it is not.
\<close>

theorem event_routing:
  "Component_on c name fn opts w =
     App_on (if is_global_event name then Shared
             else if c_global_event (w_comps w c) then Shared else Private c) name fn opts w
   \<and> Component_run (run n) c name args w =
     run n (if is_global_event name then Shared
            else if c_global_event (w_comps w c) then Shared else Private c) name args w
   \<and> is_global_event name = (\<exists>rest. name = CHR ''#'' # rest \<or> name = CHR ''/'' # rest)"
proof -
  have "is_global_event name = (\<exists>rest. name = CHR ''#'' # rest \<or> name = CHR ''/'' # rest)"
    by (cases name) (auto simp: is_global_event_def startsWith_def)
  then show ?thesis
    by (simp add: Component_on_def Component_run_def route_def)
qed


subsection \<open>The convenience method once\<close>

lemma steady_dispatches: "steady w (dispatches n ds w)"
proof (induction ds arbitrary: w)
  case Nil
  show ?case by simp
next
  case (Cons d ds)
  have "steady w (state_of (run n (fst d) (fst (snd d)) (snd (snd d)) w))"
    by (rule steady_run)
  then show ?case
    using Cons.IH by (auto intro: steady_trans)
qed

lemma events_of_calls [simp]: "events_of b (w\<lparr>w_calls := cs\<rparr>) = events_of b w"
  by (cases b) simp_all

lemma events_of_new_options [simp]: "events_of b (snd (new_options o' w)) = events_of b w"
  by (cases b) (simp_all add: new_options_def)

lemma App_on_fresh:
  assumes "slot_of (events_of b w) name \<noteq> Foreign"
  shows "\<exists>w1. App_on b name h None w = Done () w1
          \<and> events_of b w1 name
              = Some ((case events_of b w name of None \<Rightarrow> [] | Some l \<Rightarrow> l) @ [\<lparr>s_fn = h, s_opts = w_next_opts w\<rparr>])
          \<and> w_opts w1 (w_next_opts w) = no_options
          \<and> w_calls w1 = w_calls w"
proof -
  let ?w0 = "w\<lparr>w_opts := (w_opts w)(w_next_opts w := no_options), w_next_opts := Suc (w_next_opts w)\<rparr>"
  let ?s = "\<lparr>s_fn = h, s_opts = w_next_opts w\<rparr>"
  have e: "events_of b ?w0 = events_of b w"
    by (cases b) simp_all
  have o: "w_opts (set_events b name l ?w0) (w_next_opts w) = no_options"
    "w_calls (set_events b name l ?w0) = w_calls w" for l
    by (cases b; simp add: set_events_def upd_comp_def)+
  have eq: "App_on b name h None w =
      (case slot_of (events_of b w) name of
         Foreign \<Rightarrow> Raised type_error ?w0
       | Absent \<Rightarrow> Done () (set_events b name [?s] ?w0)
       | Present l \<Rightarrow> Done () (set_events b name (l @ [?s]) ?w0))"
    unfolding App_on_def new_options_def by (simp add: e)
  show ?thesis
  proof (cases "events_of b w name")
    case None
    with assms have "slot_of (events_of b w) name = Absent"
      by (simp add: slot_of_def split: if_splits)
    with None o show ?thesis
      unfolding eq by (simp add: events_of_set_events)
  next
    case (Some l)
    then have "slot_of (events_of b w) name = Present l"
      by (simp add: slot_of_def)
    with Some o show ?thesis
      unfolding eq by (simp add: events_of_set_events)
  qed
qed

lemma repeated_callback:
  assumes "events_of b w name = Some [s]" and "s_fn s = Callback k None"
    and "\<not> o_once (w_opts w (s_opts s))" and "o_delay (w_opts w (s_opts s)) = 0"
  shows "dispatches (Suc n) (replicate j (b, name, args)) w
           = w\<lparr>w_calls := w_calls w @ replicate j (k, args)\<rparr>"
  using assms
proof (induction j arbitrary: w)
  case 0
  show ?case by simp
next
  case (Suc j)
  let ?w2 = "w\<lparr>w_calls := w_calls w @ [(k, args)]\<rparr>"
  have r: "run (Suc n) b name args w = Done () ?w2"
    using run_callbacks [of b w name "[s]" n args] Suc.prems
    by (simp add: returning_def callback_id_def del: run.simps)
  have "dispatches (Suc n) (replicate j (b, name, args)) ?w2
           = ?w2\<lparr>w_calls := w_calls ?w2 @ replicate j (k, args)\<rparr>"
    using Suc.prems by (intro Suc.IH) simp_all
  then show ?case
    using r by (simp add: state_of_def replicate_app_Cons_same del: run.simps)
qed

text \<open>
  C10. \<^verbatim>\<open>once(name, handler)\<close> is \<^verbatim>\<open>on(name, handler)\<close> with no options. Unless the
  registry entry of the name is an inherited property, it returns and has appended a
  subscription whose options are a fresh \<^verbatim>\<open>{}\<close>, so the \<^verbatim>\<open>once\<close> flag is not set;
  after any sequence of dispatches, of any events on any bus, the subscription is still
  in the list and its flag is still not set. For an application callback subscribed
  this way to an event without other subscriptions, \<open>j\<close> dispatches of the event
  record exactly \<open>j\<close> calls of it.
\<close>

theorem once_registers_like_on:
  "App_once b name h w = App_on b name h None w
   \<and> (slot_of (events_of b w) name \<noteq> Foreign \<longrightarrow>
        (\<exists>w1. App_once b name h w = Done () w1
           \<and> events_of b w1 name
               = Some ((case events_of b w name of None \<Rightarrow> [] | Some l \<Rightarrow> l)
                       @ [\<lparr>s_fn = h, s_opts = w_next_opts w\<rparr>])
           \<and> w_opts w1 (w_next_opts w) = no_options
           \<and> (\<forall>n ds. \<exists>l'. events_of b (dispatches n ds w1) name = Some l'
                  \<and> \<lparr>s_fn = h, s_opts = w_next_opts w\<rparr> \<in> set l'
                  \<and> \<not> o_once (w_opts (dispatches n ds w1) (w_next_opts w)))))
   \<and> (slot_of (events_of b w) name = Absent \<and> h = Callback k None \<longrightarrow>
        (\<forall>n j args. dispatches (Suc n) (replicate j (b, name, args)) (state_of (App_once b name h w))
            = (state_of (App_once b name h w))\<lparr>w_calls := w_calls w @ replicate j (k, args)\<rparr>))"
proof (intro conjI impI)
  show "App_once b name h w = App_on b name h None w"
    by (simp add: App_once_def)
next
  assume a: "slot_of (events_of b w) name \<noteq> Foreign"
  let ?s = "\<lparr>s_fn = h, s_opts = w_next_opts w\<rparr>"
  from App_on_fresh [OF a, of h] obtain w1 where w1: "App_on b name h None w = Done () w1"
    and ev: "events_of b w1 name = Some ((case events_of b w name of None \<Rightarrow> [] | Some l \<Rightarrow> l) @ [?s])"
    and op: "w_opts w1 (w_next_opts w) = no_options"
    by blast
  have keep: "\<exists>l'. events_of b (dispatches n ds w1) name = Some l' \<and> ?s \<in> set l'
                 \<and> \<not> o_once (w_opts (dispatches n ds w1) (w_next_opts w))" for n ds
  proof -
    have st: "steady w1 (dispatches n ds w1)" by (rule steady_dispatches)
    have "\<not> o_once (w_opts w1 (s_opts ?s))" using op by (simp add: no_options_def)
    moreover have "?s \<in> set ((case events_of b w name of None \<Rightarrow> [] | Some l \<Rightarrow> l) @ [?s])" by simp
    ultimately obtain l' where "events_of b (dispatches n ds w1) name = Some l'" "?s \<in> set l'"
      using st ev unfolding steady_def by blast
    moreover have "\<not> o_once (w_opts (dispatches n ds w1) (w_next_opts w))"
      using st op by (simp add: steady_def no_options_def)
    ultimately show ?thesis by blast
  qed
  show "\<exists>w1. App_once b name h w = Done () w1
           \<and> events_of b w1 name
               = Some ((case events_of b w name of None \<Rightarrow> [] | Some l \<Rightarrow> l) @ [?s])
           \<and> w_opts w1 (w_next_opts w) = no_options
           \<and> (\<forall>n ds. \<exists>l'. events_of b (dispatches n ds w1) name = Some l'
                  \<and> ?s \<in> set l'
                  \<and> \<not> o_once (w_opts (dispatches n ds w1) (w_next_opts w)))"
    using w1 ev op keep by (auto simp: App_once_def)
next
  assume a: "slot_of (events_of b w) name = Absent \<and> h = Callback k None"
  let ?s = "\<lparr>s_fn = h, s_opts = w_next_opts w\<rparr>"
  from a have nf: "slot_of (events_of b w) name \<noteq> Foreign" and none: "events_of b w name = None"
    by (simp_all add: slot_of_def split: option.splits if_splits)
  from App_on_fresh [OF nf, of h] none obtain w1 where w1: "App_on b name h None w = Done () w1"
    and ev: "events_of b w1 name = Some [?s]"
    and op: "w_opts w1 (w_next_opts w) = no_options"
    and cl: "w_calls w1 = w_calls w"
    by auto
  have "dispatches (Suc n) (replicate j (b, name, args)) w1
            = w1\<lparr>w_calls := w_calls w1 @ replicate j (k, args)\<rparr>" for n j args
    using ev a op repeated_callback [of b w1 name ?s k n j args]
    by (simp add: no_options_def del: dispatches.simps)
  then show "\<forall>n j args. dispatches (Suc n) (replicate j (b, name, args)) (state_of (App_once b name h w))
            = (state_of (App_once b name h w))\<lparr>w_calls := w_calls w @ replicate j (k, args)\<rparr>"
    using w1 cl by (simp add: App_once_def state_of_def)
qed

lemma loaded_x: "slot_of (events_of Shared loaded) ''x'' = Absent"
  by (simp add: slot_of_def loaded_def)

theorem once_registers_like_on_witness:
  "slot_of (events_of Shared loaded) ''x'' = Absent
   \<and> w_calls (dispatches (Suc 0) [(Shared, ''x'', [VNum 5]), (Shared, ''x'', [VNum 5]), (Shared, ''x'', [VNum 5])]
                (state_of (App_once Shared ''x'' (Callback 9 None) loaded)))
       = [(9, [VNum 5]), (9, [VNum 5]), (9, [VNum 5])]
   \<and> events_of Shared (dispatches (Suc 0) [(Shared, ''x'', [VNum 5]), (Shared, ''x'', [VNum 5]), (Shared, ''x'', [VNum 5])]
                (state_of (App_once Shared ''x'' (Callback 9 None) loaded))) ''x''
       = Some [\<lparr>s_fn = Callback 9 None, s_opts = 3\<rparr>]"
proof -
  note t = once_registers_like_on [of Shared "''x''" "Callback 9 None" loaded 9]
  have a: "slot_of (events_of Shared loaded) ''x'' = Absent" by (rule loaded_x)
  have r: "replicate 3 (Shared, ''x'', [VNum 5])
      = [(Shared, ''x'', [VNum 5]), (Shared, ''x'', [VNum 5]), (Shared, ''x'', [VNum 5])]"
    by (simp add: numeral_3_eq_3)
  from t a have "\<forall>n j args. dispatches (Suc n) (replicate j (Shared, ''x'', args)) (state_of (App_once Shared ''x'' (Callback 9 None) loaded))
            = (state_of (App_once Shared ''x'' (Callback 9 None) loaded))\<lparr>w_calls := w_calls loaded @ replicate j (9, args)\<rparr>"
    by blast
  then have "dispatches (Suc 0) (replicate 3 (Shared, ''x'', [VNum 5])) (state_of (App_once Shared ''x'' (Callback 9 None) loaded))
            = (state_of (App_once Shared ''x'' (Callback 9 None) loaded))\<lparr>w_calls := w_calls loaded @ replicate 3 (9, [VNum 5])\<rparr>"
    by blast
  then show ?thesis
    unfolding r using a
    by (simp add: numeral_3_eq_3 loaded_def App_once_def App_on_def new_options_def slot_of_def
        set_events_def state_of_def inherited_def object_prototype_names_def del: dispatches.simps run.simps)
qed

subsection \<open>Rendering, history and asynchronous updates\<close>

lemma run_numeral: "run (numeral k) = App_run (run (pred_numeral k))"
  by (simp add: numeral_eq_Suc)

lemma ancestor_within_numeral:
  "ancestor_within (numeral k) st a p =
     (a = p \<or> (case n_parent (node st p) of None \<Rightarrow> False | Some q \<Rightarrow> ancestor_within (pred_numeral k) st a q))"
  by (simp add: numeral_eq_Suc)

lemma text_within_numeral:
  "text_within (numeral k) st i =
     (if n_type (node st i) = 3 then n_data (node st i)
      else concat (map (text_within (pred_numeral k) st) (n_kids (node st i))))"
  by (simp add: numeral_eq_Suc)

lemmas world_defs =
  new_component_def loaded_def mount_def announce_def configure_def merge_config_def pick_def
  empty_config_def bound_def name_or_def Component_on_def Component_run_def route_def is_global_event_def
  startsWith_def App_on_def new_options_def slot_of_def inherited_def object_prototype_names_def
  set_events_def upd_comp_def add_actions_def Object_keys_def is_index_def add_action_def assign_def
  split_commas_def
  trim_def is_space_def setState_def commit_def renderState_def App_run_def invoke_def
  log_def called_def paint_def resolve_def record_history_def commit_callback_def
  no_options_def nav_options_def history_prev_def history_next_def history_at_def
  state_of_def vdom_or_note_def blank_component_def run_numeral

lemmas dom_defs =
  updateElement_def createElement_def new_element_def valid_name_def name_start_def name_char_def
  createElementNS_def createTextNode_def createText_def
  alloc_def blank_def updateProps_def merge_props_def appendChild_def append_node_def
  inclusive_ancestor_def detach_def upd_node_def node_def document0_def show_int_def
  toUpperCase_def upper_char_def replace_new_def replaceChild_def patch_text_def textContent_def
  tag_of_def ancestor_within_numeral text_within_numeral

lemmas counter_defs = increment_def counter_view_def history_config_def start_loading_def


lemma run_subs_plain:
  "list_all (\<lambda>s. plain (s_fn s)) l \<Longrightarrow>
   \<exists>kept' w'. run_subs call args l kept w = Done kept' w'
      \<and> set kept' \<subseteq> set kept \<union> set l
      \<and> w_comps w' = w_comps w \<and> w_dom w' = w_dom w \<and> w_reactions w' = w_reactions w
      \<and> w_uncaught w' = w_uncaught w \<and> w_console w' = w_console w \<and> w_shared w' = w_shared w"
proof (induction l arbitrary: kept w)
  case Nil
  show ?case by simp
next
  case (Cons s ss)
  let ?r = "if o_delay (w_opts w (s_opts s)) \<noteq> 0
            then Done () (App_delay (s_fn s) args (s_opts s) w)
            else invoke call (s_fn s) args w"
  have "\<exists>w1. ?r = Done () w1 \<and> w_comps w1 = w_comps w \<and> w_dom w1 = w_dom w
      \<and> w_reactions w1 = w_reactions w \<and> w_uncaught w1 = w_uncaught w
      \<and> w_console w1 = w_console w \<and> w_shared w1 = w_shared w"
    using Cons.prems
    by (cases "s_fn s")
       (auto simp: plain_def invoke_def called_def App_delay_def upd_opts_def clearTimeout_def Let_def
             split: option.splits)
  then obtain w1 where r: "?r = Done () w1" and f: "w_comps w1 = w_comps w" "w_dom w1 = w_dom w"
      "w_reactions w1 = w_reactions w" "w_uncaught w1 = w_uncaught w"
      "w_console w1 = w_console w" "w_shared w1 = w_shared w"
    by blast
  let ?k = "if o_once (w_opts w1 (s_opts s)) then kept else kept @ [s]"
  from Cons.prems have "list_all (\<lambda>s. plain (s_fn s)) ss" by simp
  from Cons.IH [OF this, of ?k w1]
  obtain kept' w' where i: "run_subs call args ss ?k w1 = Done kept' w'"
      "set kept' \<subseteq> set ?k \<union> set ss"
      "w_comps w' = w_comps w1" "w_dom w' = w_dom w1" "w_reactions w' = w_reactions w1"
      "w_uncaught w' = w_uncaught w1" "w_console w' = w_console w1" "w_shared w' = w_shared w1"
    by blast
  have "run_subs call args (s # ss) kept w = Done kept' w'"
    using r i(1) by simp
  moreover have "set kept' \<subseteq> set kept \<union> set (s # ss)"
    using i(2) by (auto split: if_splits)
  ultimately show ?case
    using i f by auto
qed

lemma debug_quiet:
  assumes "quiet w"
  shows "\<exists>w'. App_run call Shared ''debug'' args w = Done () w'
      \<and> w_comps w' = w_comps w \<and> w_dom w' = w_dom w \<and> w_reactions w' = w_reactions w
      \<and> w_uncaught w' = w_uncaught w \<and> quiet w'"
proof (cases "w_shared w ''debug''")
  case None
  then show ?thesis
    using assms
    by (simp add: App_run_def slot_of_def inherited_def object_prototype_names_def log_def quiet_def)
next
  case (Some l)
  with assms have p: "list_all (\<lambda>s. plain (s_fn s)) l" by (simp add: quiet_def)
  from run_subs_plain [OF p, of call args "[]" w]
  obtain kept' w' where r: "run_subs call args l [] w = Done kept' w'"
      and k: "set kept' \<subseteq> set l"
      and f: "w_comps w' = w_comps w" "w_dom w' = w_dom w" "w_reactions w' = w_reactions w"
        "w_uncaught w' = w_uncaught w"
    by auto
  have "list_all (\<lambda>s. plain (s_fn s)) kept'"
    using p k by (auto simp: list_all_iff)
  then have "quiet (set_events Shared ''debug'' kept' w')"
    by (simp add: quiet_def set_events_def)
  with Some r f show ?thesis
    by (simp add: App_run_def slot_of_def set_events_def)
qed

lemma paint_frame:
  "w_comps (state_of (paint c e w)) = w_comps w \<and> w_shared (state_of (paint c e w)) = w_shared w
   \<and> w_reactions (state_of (paint c e w)) = w_reactions w
   \<and> w_uncaught (state_of (paint c e w)) = w_uncaught w
   \<and> w_console (state_of (paint c e w)) = w_console w"
  by (simp add: paint_def state_of_def called_def split: option.splits result.splits)

lemma quiet_cong: "w_shared w' = w_shared w \<Longrightarrow> quiet w' = quiet w"
  by (simp add: quiet_def)

lemma renderState_quiet:
  assumes "quiet w"
  shows "w_comps (state_of (renderState (run (Suc n)) c t w)) = w_comps w
       \<and> w_reactions (state_of (renderState (run (Suc n)) c t w)) = w_reactions w
       \<and> w_uncaught (state_of (renderState (run (Suc n)) c t w)) = w_uncaught w
       \<and> quiet (state_of (renderState (run (Suc n)) c t w))"
proof (cases "c_view (w_comps w c)")
  case None
  with assms show ?thesis by (simp add: renderState_def state_of_def)
next
  case (Some v)
  from debug_quiet [OF assms, of "run n" "[VObj [(''component'', VRef c), (''state'', t), (''vdom'', vdom_or_note (v t))]]"]
  obtain w1 where d: "App_run (run n) Shared ''debug''
        [VObj [(''component'', VRef c), (''state'', t), (''vdom'', vdom_or_note (v t))]] w = Done () w1"
    and f: "w_comps w1 = w_comps w" "w_reactions w1 = w_reactions w" "w_uncaught w1 = w_uncaught w" "quiet w1"
    by blast
  have "renderState (run (Suc n)) c t w = paint c (v t) w1"
    using Some d by (simp add: renderState_def)
  then show ?thesis
    using f paint_frame [of c "v t" w1] quiet_cong [of "state_of (paint c (v t) w1)" w1]
    by simp
qed


lemma commit_nav:
  "commit call c t nav_options w = renderState call c t (upd_comp c (\<lambda>k. k\<lparr>c_state := t\<rparr>) w)"
  by (cases "renderState call c t (upd_comp c (\<lambda>k. k\<lparr>c_state := t\<rparr>) w)")
     (simp_all add: commit_def nav_options_def no_options_def record_history_def commit_callback_def)

lemma upd_comp_twice: "upd_comp c f (upd_comp c g w) = upd_comp c (\<lambda>k. f (g k)) w"
  by (simp add: upd_comp_def)

lemma comps_upd_comp: "w_comps (upd_comp c f w) c = f (w_comps w c)"
  by (simp add: upd_comp_def)

lemma quiet_upd_comp [simp]: "quiet (upd_comp c f w) = quiet w"
  by (simp add: quiet_def upd_comp_def)

lemma setState_nav_quiet:
  assumes "quiet w"
  shows "c_history (w_comps (state_of (setState (run (Suc n)) c t nav_options w)) c) = c_history (w_comps w c)
       \<and> c_history_idx (w_comps (state_of (setState (run (Suc n)) c t nav_options w)) c) = c_history_idx (w_comps w c)"
  using setState_cases [of t]
proof (elim disjE exE)
  assume t: "committable t"
  let ?w1 = "upd_comp c (\<lambda>k. k\<lparr>c_state := t\<rparr>) w"
  have "quiet ?w1" using assms by simp
  from renderState_quiet [OF this, of n c t]
  have "w_comps (state_of (renderState (run (Suc n)) c t ?w1)) = w_comps ?w1" by blast
  then show ?thesis
    using t by (simp add: setState_commit commit_nav comps_upd_comp del: run.simps)
qed (simp_all add: setState_def state_of_def)

text \<open>
  C6. In a quiet world the two history handlers of a component never change the
  history sequence; \<^verbatim>\<open>history-prev\<close> moves the cursor to \<open>max 0 (idx - 1)\<close> and
  \<^verbatim>\<open>history-next\<close> to \<open>min (length - 1) (idx + 1)\<close>; when the cursor moves onto a
  recorded state, the handler is exactly a render of that state with the cursor and the
  committed state set to it, and past either end it only resets the cursor, without a
  render. In particular, for the counter component mounted with history and incremented
  twice the history is \<open>[0, 1, 2]\<close>; dispatching \<^verbatim>\<open>history-prev\<close> twice gives the
  committed state \<open>0\<close>, shown in the host tree, and a third dispatch leaves the state
  at \<open>0\<close> and the history at \<open>[0, 1, 2]\<close>.
\<close>

theorem history_navigation:
  assumes "quiet w"
  shows
    "c_history (w_comps (state_of (history_prev (run (Suc n)) c w)) c) = c_history (w_comps w c)
     \<and> c_history (w_comps (state_of (history_next (run (Suc n)) c w)) c) = c_history (w_comps w c)
     \<and> c_history_idx (w_comps (state_of (history_prev (run (Suc n)) c w)) c)
         = max 0 (c_history_idx (w_comps w c) - 1)
     \<and> c_history_idx (w_comps (state_of (history_next (run (Suc n)) c w)) c)
         = min (int (length (c_history (w_comps w c))) - 1) (c_history_idx (w_comps w c) + 1)
     \<and> (1 \<le> c_history_idx (w_comps w c)
          \<and> committable (history_at (c_history (w_comps w c)) (c_history_idx (w_comps w c) - 1)) \<longrightarrow>
        history_prev (run (Suc n)) c w
          = renderState (run (Suc n)) c (history_at (c_history (w_comps w c)) (c_history_idx (w_comps w c) - 1))
              (upd_comp c (\<lambda>k. k\<lparr>c_history_idx := c_history_idx k - 1,
                   c_state := history_at (c_history (w_comps w c)) (c_history_idx (w_comps w c) - 1)\<rparr>) w))
     \<and> (c_history_idx (w_comps w c) + 1 < int (length (c_history (w_comps w c)))
          \<and> committable (history_at (c_history (w_comps w c)) (c_history_idx (w_comps w c) + 1)) \<longrightarrow>
        history_next (run (Suc n)) c w
          = renderState (run (Suc n)) c (history_at (c_history (w_comps w c)) (c_history_idx (w_comps w c) + 1))
              (upd_comp c (\<lambda>k. k\<lparr>c_history_idx := c_history_idx k + 1,
                   c_state := history_at (c_history (w_comps w c)) (c_history_idx (w_comps w c) + 1)\<rparr>) w))
     \<and> (c_history_idx (w_comps w c) < 1 \<longrightarrow>
        history_prev (run (Suc n)) c w = Done () (upd_comp c (\<lambda>k. k\<lparr>c_history_idx := 0\<rparr>) w))
     \<and> (int (length (c_history (w_comps w c))) \<le> c_history_idx (w_comps w c) + 1 \<longrightarrow>
        history_next (run (Suc n)) c w
          = Done () (upd_comp c (\<lambda>k. k\<lparr>c_history_idx := int (length (c_history k)) - 1\<rparr>) w))
     \<and> c_history (w_comps counted_to_two 0) = [VNum 0, VNum 1, VNum 2]
     \<and> c_state (w_comps counted_to_two 0) = VNum 2
     \<and> c_state (w_comps back_twice 0) = VNum 0
     \<and> textContent (w_dom back_twice) 1 = ''0''
     \<and> c_state (w_comps back_thrice 0) = VNum 0
     \<and> c_history (w_comps back_thrice 0) = [VNum 0, VNum 1, VNum 2]"
proof -
  let ?i = "c_history_idx (w_comps w c)"
  let ?h = "c_history (w_comps w c)"
  let ?p = "upd_comp c (\<lambda>k. k\<lparr>c_history_idx := c_history_idx k - 1\<rparr>) w"
  let ?x = "upd_comp c (\<lambda>k. k\<lparr>c_history_idx := c_history_idx k + 1\<rparr>) w"
  have qp: "quiet ?p" and qx: "quiet ?x" using assms by simp_all
  note sp = setState_nav_quiet [OF qp, of n c "history_at ?h (?i - 1)"]
  note sx = setState_nav_quiet [OF qx, of n c "history_at ?h (?i + 1)"]
  have prev: "history_prev (run (Suc n)) c w =
      (if ?i - 1 \<ge> 0 then setState (run (Suc n)) c (history_at ?h (?i - 1)) nav_options ?p
       else Done () (upd_comp c (\<lambda>k. k\<lparr>c_history_idx := 0\<rparr>) w))"
    by (simp add: history_prev_def Let_def comps_upd_comp upd_comp_twice del: run.simps)
  have "next": "history_next (run (Suc n)) c w =
      (if ?i + 1 < int (length ?h) then setState (run (Suc n)) c (history_at ?h (?i + 1)) nav_options ?x
       else Done () (upd_comp c (\<lambda>k. k\<lparr>c_history_idx := int (length (c_history k)) - 1\<rparr>) w))"
    by (simp add: history_next_def Let_def comps_upd_comp upd_comp_twice del: run.simps)
  have a1: "c_history (w_comps (state_of (history_prev (run (Suc n)) c w)) c) = ?h"
    unfolding prev using sp by (simp add: comps_upd_comp state_of_def del: run.simps)
  have a2: "c_history (w_comps (state_of (history_next (run (Suc n)) c w)) c) = ?h"
    unfolding "next" using sx by (simp add: comps_upd_comp state_of_def del: run.simps)
  have a3: "c_history_idx (w_comps (state_of (history_prev (run (Suc n)) c w)) c) = max 0 (?i - 1)"
    unfolding prev using sp by (simp add: comps_upd_comp state_of_def del: run.simps)
  have a4: "c_history_idx (w_comps (state_of (history_next (run (Suc n)) c w)) c)
         = min (int (length ?h) - 1) (?i + 1)"
    unfolding "next" using sx by (simp add: comps_upd_comp state_of_def del: run.simps)
  have a5: "1 \<le> ?i \<and> committable (history_at ?h (?i - 1)) \<longrightarrow>
        history_prev (run (Suc n)) c w
          = renderState (run (Suc n)) c (history_at ?h (?i - 1))
              (upd_comp c (\<lambda>k. k\<lparr>c_history_idx := c_history_idx k - 1,
                   c_state := history_at (c_history (w_comps w c)) (c_history_idx (w_comps w c) - 1)\<rparr>) w)"
    unfolding prev
    by (simp add: setState_commit commit_nav upd_comp_twice del: run.simps)
  have a6: "?i + 1 < int (length ?h) \<and> committable (history_at ?h (?i + 1)) \<longrightarrow>
        history_next (run (Suc n)) c w
          = renderState (run (Suc n)) c (history_at ?h (?i + 1))
              (upd_comp c (\<lambda>k. k\<lparr>c_history_idx := c_history_idx k + 1,
                   c_state := history_at (c_history (w_comps w c)) (c_history_idx (w_comps w c) + 1)\<rparr>) w)"
    unfolding "next"
    by (simp add: setState_commit commit_nav upd_comp_twice del: run.simps)
  have a7: "?i < 1 \<longrightarrow>
        history_prev (run (Suc n)) c w = Done () (upd_comp c (\<lambda>k. k\<lparr>c_history_idx := 0\<rparr>) w)"
    unfolding prev by simp
  have a8: "int (length ?h) \<le> ?i + 1 \<longrightarrow>
        history_next (run (Suc n)) c w
          = Done () (upd_comp c (\<lambda>k. k\<lparr>c_history_idx := int (length (c_history k)) - 1\<rparr>) w)"
    unfolding "next" by simp
  have b1: "c_history (w_comps counted_to_two 0) = [VNum 0, VNum 1, VNum 2]
     \<and> c_state (w_comps counted_to_two 0) = VNum 2"
    unfolding counted_to_two_def counter_mounted_def
    by (simp add: world_defs dom_defs counter_defs Let_def)
  have b2: "c_state (w_comps back_twice 0) = VNum 0 \<and> textContent (w_dom back_twice) 1 = ''0''"
    unfolding back_twice_def counted_to_two_def counter_mounted_def
    by (simp add: world_defs dom_defs counter_defs Let_def)
  have b3: "c_state (w_comps back_thrice 0) = VNum 0
     \<and> c_history (w_comps back_thrice 0) = [VNum 0, VNum 1, VNum 2]"
    unfolding back_thrice_def back_twice_def counted_to_two_def counter_mounted_def
    by (simp add: world_defs dom_defs counter_defs Let_def)
  show ?thesis
    using a1 a2 a3 a4 a5 a6 a7 a8 b1 b2 b3 by blast
qed


theorem history_navigation_witness:
  "quiet back_twice
   \<and> c_history_idx (w_comps (state_of (history_prev (run (Suc 0)) 0 back_twice)) 0) = 0
   \<and> c_history (w_comps (state_of (history_prev (run (Suc 0)) 0 back_twice)) 0) = [VNum 0, VNum 1, VNum 2]
   \<and> quiet counted_to_two
   \<and> history_prev (run (Suc 0)) 0 counted_to_two
        = renderState (run (Suc 0)) 0 (VNum 1)
            (upd_comp 0 (\<lambda>k. k\<lparr>c_history_idx := c_history_idx k - 1, c_state := VNum 1\<rparr>) counted_to_two)"
proof -
  have q1: "quiet back_twice"
    unfolding back_twice_def counted_to_two_def counter_mounted_def
    by (simp add: world_defs dom_defs counter_defs Let_def quiet_def plain_def)
  have q2: "quiet counted_to_two"
    unfolding counted_to_two_def counter_mounted_def
    by (simp add: world_defs dom_defs counter_defs Let_def quiet_def plain_def)
  have f1: "c_history (w_comps back_twice 0) = [VNum 0, VNum 1, VNum 2] \<and> c_history_idx (w_comps back_twice 0) = 0"
    unfolding back_twice_def counted_to_two_def counter_mounted_def
    by (simp add: world_defs dom_defs counter_defs Let_def)
  have f2: "c_history (w_comps counted_to_two 0) = [VNum 0, VNum 1, VNum 2] \<and> c_history_idx (w_comps counted_to_two 0) = 2"
    unfolding counted_to_two_def counter_mounted_def
    by (simp add: world_defs dom_defs counter_defs Let_def)
  note t1 = history_navigation [OF q1, of 0 0]
  note t2 = history_navigation [OF q2, of 0 0]
  have p1: "c_history (w_comps (state_of (history_prev (run (Suc 0)) 0 back_twice)) 0)
      = c_history (w_comps back_twice 0)"
    by (rule t1 [THEN conjunct1])
  have p2: "c_history_idx (w_comps (state_of (history_prev (run (Suc 0)) 0 back_twice)) 0)
      = max 0 (c_history_idx (w_comps back_twice 0) - 1)"
    by (rule t1 [THEN conjunct2, THEN conjunct2, THEN conjunct1])
  have p3: "1 \<le> c_history_idx (w_comps counted_to_two 0)
          \<and> committable (history_at (c_history (w_comps counted_to_two 0)) (c_history_idx (w_comps counted_to_two 0) - 1)) \<longrightarrow>
        history_prev (run (Suc 0)) 0 counted_to_two
          = renderState (run (Suc 0)) 0 (history_at (c_history (w_comps counted_to_two 0)) (c_history_idx (w_comps counted_to_two 0) - 1))
              (upd_comp 0 (\<lambda>k. k\<lparr>c_history_idx := c_history_idx k - 1,
                   c_state := history_at (c_history (w_comps counted_to_two 0)) (c_history_idx (w_comps counted_to_two 0) - 1)\<rparr>) counted_to_two)"
    by (rule t2 [THEN conjunct2, THEN conjunct2, THEN conjunct2, THEN conjunct2, THEN conjunct1])
  have h: "history_at [VNum 0, VNum 1, VNum 2] (2 - 1) = VNum 1"
    by (simp add: history_at_def)
  have p4: "history_prev (run (Suc 0)) 0 counted_to_two
        = renderState (run (Suc 0)) 0 (VNum 1)
            (upd_comp 0 (\<lambda>k. k\<lparr>c_history_idx := c_history_idx k - 1, c_state := VNum 1\<rparr>) counted_to_two)"
    using p3 unfolding f2 [THEN conjunct1] f2 [THEN conjunct2] h
    by (simp add: committable_def del: run.simps)
  show ?thesis
    using q1 q2 p1 p2 p4 f1 by (simp del: run.simps)
qed

lemma settle_rejected_one:
  assumes "\<forall>r \<in> set rs. r_promise r \<noteq> p"
  shows "settle call p (Rejected x) (w\<lparr>w_reactions := rs @ [\<lparr>r_promise = p, r_comp = c, r_opts = e\<rparr>]\<rparr>)
           = w\<lparr>w_reactions := rs, w_console := w_console w @ [ErrorLogged x],
                w_uncaught := w_uncaught w @ [x]\<rparr>"
proof -
  have a: "filter (\<lambda>r. r_promise r = p) rs = []" and b: "filter (\<lambda>r. r_promise r \<noteq> p) rs = rs"
    using assms by (simp_all add: filter_empty_conv filter_id_conv)
  show ?thesis
    by (simp add: settle_def a b react_def rethrow_def log_def)
qed

text \<open>
  C8. In a quiet world, when the update function of a component returns a pending
  promise, the handler the bus calls returns and leaves every component as it was; when
  the promise is then rejected, the reason is written to the console with
  \<^verbatim>\<open>console.error\<close>, it is thrown again inside the promise chain, where nothing catches
  it, and every component, so the committed state too, is still as before the
  dispatch. In particular, for the loading component the state is \<open>0\<close> before the
  dispatch and after the rejection.
\<close>

theorem rejected_update_leaves_state:
  assumes "quiet w" and "f (c_state (w_comps w c)) args = VPromise p"
    and "\<forall>r \<in> set (w_reactions w). r_promise r \<noteq> p"
  shows "(\<exists>w1. invoke (run (Suc n)) (Action c name f r) args w = Done () w1
            \<and> w_comps w1 = w_comps w
            \<and> w_comps (settle (run m) p (Rejected x) w1) = w_comps w
            \<and> w_console (settle (run m) p (Rejected x) w1) = w_console w1 @ [ErrorLogged x]
            \<and> w_uncaught (settle (run m) p (Rejected x) w1) = w_uncaught w @ [x])
         \<and> c_state (w_comps loader_mounted 0) = VNum 0
         \<and> c_state (w_comps load_rejected 0) = VNum 0
         \<and> w_console load_rejected = [ErrorLogged (VError ''offline'')]
         \<and> w_uncaught load_rejected = [VError ''offline'']"
proof -
  let ?a = "[VObj [(''component'', VRef c), (''event'', VStr name), (''e'', VArr args),
                   (''state'', c_state (w_comps w c)), (''newState'', VPromise p), (''options'', VRef r)]]"
  from debug_quiet [OF assms(1), of "run n" ?a]
  obtain w' where d: "App_run (run n) Shared ''debug'' ?a w = Done () w'"
    and f: "w_comps w' = w_comps w" "w_reactions w' = w_reactions w" "w_uncaught w' = w_uncaught w"
    by blast
  let ?w1 = "w'\<lparr>w_reactions := w_reactions w @ [\<lparr>r_promise = p, r_comp = c, r_opts = w_opts w' r\<rparr>]\<rparr>"
  have i: "invoke (run (Suc n)) (Action c name f r) args w = Done () ?w1"
    using assms(2) d f by (simp add: invoke_def setState_def)
  have s: "settle (run m) p (Rejected x) ?w1
      = w'\<lparr>w_reactions := w_reactions w, w_console := w_console w' @ [ErrorLogged x],
            w_uncaught := w_uncaught w' @ [x]\<rparr>"
    using assms(3) by (rule settle_rejected_one)
  have g: "\<exists>w1. invoke (run (Suc n)) (Action c name f r) args w = Done () w1
            \<and> w_comps w1 = w_comps w
            \<and> w_comps (settle (run m) p (Rejected x) w1) = w_comps w
            \<and> w_console (settle (run m) p (Rejected x) w1) = w_console w1 @ [ErrorLogged x]
            \<and> w_uncaught (settle (run m) p (Rejected x) w1) = w_uncaught w @ [x]"
    using f by (simp add: i s del: run.simps)
  have b1: "c_state (w_comps loader_mounted 0) = VNum 0"
    unfolding loader_mounted_def
    by (simp add: world_defs dom_defs counter_defs Let_def)
  have b2: "c_state (w_comps load_rejected 0) = VNum 0
         \<and> w_console load_rejected = [ErrorLogged (VError ''offline'')]
         \<and> w_uncaught load_rejected = [VError ''offline'']"
    unfolding load_rejected_def loader_mounted_def
    by (simp add: world_defs dom_defs counter_defs Let_def settle_def react_def rethrow_def)
  show ?thesis
    using g b1 b2 by blast
qed

theorem rejected_update_leaves_state_witness:
  "quiet loader_mounted
   \<and> start_loading (c_state (w_comps loader_mounted 0)) [] = VPromise 7
   \<and> w_reactions loader_mounted = []
   \<and> (\<exists>w1. invoke (run (Suc 0)) (Action 0 ''load'' start_loading 3) [] loader_mounted = Done () w1
         \<and> c_state (w_comps (settle (run 0) 7 (Rejected (VError ''offline'')) w1) 0) = VNum 0
         \<and> w_uncaught (settle (run 0) 7 (Rejected (VError ''offline'')) w1) = [VError ''offline''])"
proof -
  have q: "quiet loader_mounted"
    unfolding loader_mounted_def
    by (simp add: world_defs dom_defs counter_defs Let_def quiet_def plain_def)
  have p: "start_loading (c_state (w_comps loader_mounted 0)) [] = VPromise 7"
    by (simp add: start_loading_def)
  have e: "w_reactions loader_mounted = []" "w_uncaught loader_mounted = []"
      "c_state (w_comps loader_mounted 0) = VNum 0"
    unfolding loader_mounted_def
    by (simp_all add: world_defs dom_defs counter_defs Let_def)
  then have n: "\<forall>r \<in> set (w_reactions loader_mounted). r_promise r \<noteq> 7" by simp
  from rejected_update_leaves_state [where w = loader_mounted and f = start_loading and c = 0
      and args = "[]" and p = 7 and n = 0 and name = "''load''" and r = 3 and m = 0
      and x = "VError ''offline''"] q p n
  obtain w1 where "invoke (run (Suc 0)) (Action 0 ''load'' start_loading 3) [] loader_mounted = Done () w1"
    "w_comps (settle (run 0) 7 (Rejected (VError ''offline'')) w1) = w_comps loader_mounted"
    "w_uncaught (settle (run 0) 7 (Rejected (VError ''offline'')) w1) = w_uncaught loader_mounted @ [VError ''offline'']"
    by blast
  then show ?thesis
    using q p e by (auto simp del: run.simps)
qed

text \<open>
  C1, as amended. For a component that already holds a truthy element, a second call
  of \<^verbatim>\<open>mount\<close> does not fail: it writes \<^verbatim>\<open>Component already mounted.\<close> to the
  console and then does exactly what \<^verbatim>\<open>mount\<close> does for a component without an
  element.
\<close>

theorem second_mount_is_not_fatal:
  "bound (c_element (w_comps w c)) \<longrightarrow>
     mount call c t e w
       = mount call c t e
           (log (AssertionFailed ''Component already mounted.'') (upd_comp c (\<lambda>k. k\<lparr>c_element := TNull\<rparr>) w))"
proof
  assume b: "bound (c_element (w_comps w c))"
  let ?w' = "log (AssertionFailed ''Component already mounted.'') (upd_comp c (\<lambda>k. k\<lparr>c_element := TNull\<rparr>) w)"
  have "announce c ?w' = ?w'"
    by (simp add: announce_def log_def upd_comp_def bound_def)
  moreover have "configure c t e (announce c w) = configure c t e ?w'"
    using b by (simp add: announce_def configure_def log_def upd_comp_def Let_def)
  ultimately show "mount call c t e w = mount call c t e ?w'"
    unfolding mount_def by (simp only:)
qed

theorem second_mount_is_not_fatal_witness:
  "bound (c_element (w_comps counter_mounted 0))
   \<and> mount (run 2) 0 (TNode 1) (Some history_config) counter_mounted
       = mount (run 2) 0 (TNode 1) (Some history_config)
           (log (AssertionFailed ''Component already mounted.'')
              (upd_comp 0 (\<lambda>k. k\<lparr>c_element := TNull\<rparr>) counter_mounted))"
proof -
  have "c_element (w_comps counter_mounted 0) = TNode 1"
    unfolding counter_mounted_def
    by (simp add: world_defs dom_defs counter_defs Let_def)
  then have b: "bound (c_element (w_comps counter_mounted 0))"
    by (simp add: bound_def)
  with second_mount_is_not_fatal [of counter_mounted 0 "run 2" "TNode 1" "Some history_config"]
  show ?thesis by blast
qed

text \<open>
  The claim as stated fails: the counter component, mounted on the \<^verbatim>\<open>body\<close>
  element, is mounted again; the call returns, the console holds the diagnostic, the
  element is bound, and the update handler is on the bus twice.
\<close>

theorem second_mount_returns:
  "bound (c_element (w_comps counter_mounted 0))
   \<and> returns mounted_again
   \<and> w_console (state_of mounted_again) = [AssertionFailed ''Component already mounted.'']
   \<and> c_element (w_comps (state_of mounted_again) 0) = TNode 1
   \<and> length (the (c_app (w_comps (state_of mounted_again) 0) ''+1'')) = 2"
  unfolding mounted_again_def counter_mounted_def
  by (simp add: world_defs dom_defs counter_defs Let_def returns_def)

subsection \<open>Keyed children\<close>

text \<open>What the properties of a keyed child and the moves within one parent
  preserve.\<close>

lemma same_frame_refl [simp]: "same_frame st st"
  by (simp add: same_frame_def)



lemma ancestor_within_self [simp]: "ancestor_within k st a a"
  by (cases k) simp_all






lemma upd_node_fields [simp]:
  "d_next (upd_node i f st) = d_next st" "d_keys (upd_node i f st) = d_keys st"
  by (simp_all add: upd_node_def)












lemmas tree_defs =
  item_def createDocumentFragment_def apply_prop_def differs_def state_of_def
  removeChild_def remove_last_def relocate_def slot_of_def inherited_def object_prototype_names_def
  has_key_def key_of_def startsWith_def



lemma two_lists_shape:
  "n_kids (node two_lists 1) = [3, 5]"
  "n_kids (node two_lists 3) = [4]"
  "n_kids (node two_lists 5) = [6]"
  "d_keys two_lists ''a'' = Some 4"
  "d_keys two_lists ''z'' = Some 6"
  "map_of (n_attrs (node two_lists 4)) ''key'' = Some (PStr ''a'')"
  "n_parent (node two_lists 4) = Some 3"
  "d_next two_lists = 7"
  unfolding two_lists_def
  by (simp_all add: tree_defs dom_defs Let_def)




subsection \<open>Delayed subscriptions\<close>

text \<open>A dispatch schedules the delayed subscription anew and calls the bystanders;
  the clock leaves a timer that is not due alone and runs the one that is.\<close>

lemma waiting_iff:
  "waiting s a due w =
     (\<exists>tid. w_timers w = [\<lparr>t_id = tid, t_due = due, t_fn = s_fn s, t_args = a, t_opts = s_opts s\<rparr>]
         \<and> o_timer (w_opts w (s_opts s)) = Some tid)"
proof (cases "w_timers w")
  case Nil
  then show ?thesis by (simp add: waiting_def)
next
  case (Cons tm tms)
  show ?thesis
  proof
    assume "waiting s a due w"
    with Cons have "tms = []" "t_fn tm = s_fn s" "t_args tm = a" "t_due tm = due"
      "t_opts tm = s_opts s" "o_timer (w_opts w (s_opts s)) = Some (t_id tm)"
      by (simp_all add: waiting_def)
    with Cons show "\<exists>tid. w_timers w = [\<lparr>t_id = tid, t_due = due, t_fn = s_fn s, t_args = a, t_opts = s_opts s\<rparr>]
         \<and> o_timer (w_opts w (s_opts s)) = Some tid"
      by (intro exI [of _ "t_id tm"]) simp
  next
    assume "\<exists>tid. w_timers w = [\<lparr>t_id = tid, t_due = due, t_fn = s_fn s, t_args = a, t_opts = s_opts s\<rparr>]
         \<and> o_timer (w_opts w (s_opts s)) = Some tid"
    then show "waiting s a due w"
      by (auto simp: waiting_def)
  qed
qed



lemma bystander_calls [simp]: "bystander k (w\<lparr>w_calls := cs\<rparr>) = bystander k w"
  by (rule ext) (simp add: bystander_def)



lemma events_of_frame [simp]:
  "events_of b (w\<lparr>w_timers := ts\<rparr>) = events_of b w"
  "events_of b (w\<lparr>w_next_timer := n\<rparr>) = events_of b w"
  "events_of b (w\<lparr>w_opts := os\<rparr>) = events_of b w"
  "events_of b (w\<lparr>w_now := t\<rparr>) = events_of b w"
  "events_of b (w\<lparr>w_uncaught := us\<rparr>) = events_of b w"
  by (cases b; simp)+


lemma calls_of_append:
  "\<forall>c \<in> set cs. fst c \<noteq> k \<Longrightarrow> calls_of k (w\<lparr>w_calls := w_calls w @ cs\<rparr>) = calls_of k w"
  by (simp add: calls_of_def filter_empty_conv)



lemma frame_now [simp]:
  "waiting s a due (w\<lparr>w_now := t\<rparr>) = waiting s a due w"
  "debounced b name pre s post k d (w\<lparr>w_now := t\<rparr>) = debounced b name pre s post k d w"
  "calls_of k (w\<lparr>w_now := t\<rparr>) = calls_of k w"
  by (simp_all add: waiting_iff debounced_def calls_of_def bystander_def list_all_iff)















end
